theory Spec2Isabelle
  imports Main "HOL-Library.Word"
begin

unbundle bit_operations_syntax

section \<open>Meditation Band firmware: data model\<close>

text \<open>
  A shallow embedding of \<^verbatim>\<open>Meditation-Band/FIRMWARE/src/main.cpp\<close>. The global
  variables of the firmware are the fields of one record \<open>dev\<close>, every function takes
  the record and returns the updated one. \<^verbatim>\<open>uint32_t\<close>, \<^verbatim>\<open>uint16_t\<close> and
  \<^verbatim>\<open>uint8_t\<close> are words of that width, so \<open>+\<close> and \<open>-\<close> wrap around as they do in
  C++. \<^verbatim>\<open>pendingSessionCount\<close> is a C++ \<^verbatim>\<open>int\<close>; it is an \<open>int\<close> here (no
  operation of the firmware can overflow it: it is reset to 49 before every increment
  that follows a value of 50 or more).
\<close>

type_synonym u8 = "8 word"
type_synonym u16 = "16 word"
type_synonym u32 = "32 word"
type_synonym u64 = "64 word"

definition DEBOUNCE_MS :: u32 where "DEBOUNCE_MS = 50"
definition SQUEEZE_HOLD_MS :: u32 where "SQUEEZE_HOLD_MS = 200"
definition MOTOR_PULSE_MS :: u32 where "MOTOR_PULSE_MS = 150"
definition MOTOR_PAUSE_MS :: u32 where "MOTOR_PAUSE_MS = 200"
definition COMPLETION_GLOW_MS :: u32 where "COMPLETION_GLOW_MS = 30000"
definition MAX_PENDING_SESSIONS :: int where "MAX_PENDING_SESSIONS = 50"

datatype State = IDLE | PENDING | ACTIVE | SETTLING

text \<open>The cast \<^verbatim>\<open>(uint8_t)State::X\<close>.\<close>

fun state_code :: "State \<Rightarrow> u8" where
  "state_code IDLE = 0"
| "state_code PENDING = 1"
| "state_code ACTIVE = 2"
| "state_code SETTLING = 3"

record Session =
  uuid :: string
  startTime :: u32
  endTime :: u32
  durationSeconds :: u32
  synced :: bool

record Plan =
  date :: u32
  durationMinutes :: u16
  enforceGoal :: bool
  active :: bool

text \<open>
  \<^verbatim>\<open>leds[0]\<close>: the firmware only ever compares it with black. The tint computed by
  \<^verbatim>\<open>breatheLED\<close> is floating point and is kept abstract (\<open>Breath\<close>), as is the
  brightness passed to FastLED.
\<close>

datatype CRGB = Black | White | Breath

text \<open>
  A parsed ArduinoJson document. The parser itself is the library's; the firmware's
  functions are modelled on its result (\<open>None\<close> for a \<^verbatim>\<open>DeserializationError\<close>).
\<close>

datatype json = JNull | JBool bool | JInt int | JStr string | JArr "json list"
  | JObj "(string \<times> json) list"

text \<open>
  What the firmware can do wrong at run time: index \<^verbatim>\<open>pendingSessions\<close> outside its 50
  elements, or hand a null pointer to \<^verbatim>\<open>strcmp\<close>.
\<close>

datatype fault = OutOfBounds | NullPointer

text \<open>Everything the firmware sends to the outside, in the order it is sent.\<close>

datatype event =
    Serial string
  | MotorHigh
  | MotorLow
  | StatusNotify "u8 list"
  | LedShow CRGB

record dev =
  currentState :: State
  sessionStartTime :: u32
  sessionDuration :: u32
  totalSeconds :: u32
  goalDuration :: u32
  goalReached :: bool
  lastSqueezeState :: bool
  squeezeStartTime :: u32
  leds0 :: CRGB
  deviceConnected :: bool
  pendingSessions :: "Session list"
  pendingSessionCount :: int
  todaysPlan :: Plan
  settlingStart :: u32
  statusChar :: "u8 list"
  hoursChar :: u32
  sessionsChar :: json
  clock :: u32
  rng :: "u32 list"
  flash_totalSec :: u32
  flash_pendingCnt :: int
  flash_sessions :: "Session list"
  trace :: "event list"

text \<open>
  \<open>settlingStart\<close> is the \<^verbatim>\<open>static\<close> local of \<^verbatim>\<open>updateLED\<close>. \<open>statusChar\<close>,
  \<open>hoursChar\<close> and \<open>sessionsChar\<close> are the values held by the three readable BLE
  characteristics. \<open>clock\<close> is what \<^verbatim>\<open>millis()\<close> returns, \<open>rng\<close> the words
  \<^verbatim>\<open>esp_random()\<close> will return (0 once the list is used up), the three \<open>flash\<close>
  fields the Preferences store (the session blob at the granularity of whole records), and
  \<open>trace\<close> the outputs so far. A uuid is the text before the terminating zero byte.
\<close>

subsection \<open>The environment: time, outputs, random numbers, faults\<close>

definition millis :: "dev \<Rightarrow> u32" where
  "millis s = clock s"

definition delay :: "u32 \<Rightarrow> dev \<Rightarrow> dev" where
  "delay ms s = s\<lparr>clock := clock s + ms\<rparr>"

definition emit :: "event \<Rightarrow> dev \<Rightarrow> dev" where
  "emit e s = s\<lparr>trace := trace s @ [e]\<rparr>"

definition esp_random :: "dev \<Rightarrow> u32 \<times> dev" where
  "esp_random s = (case rng s of [] \<Rightarrow> (0, s) | r # rs \<Rightarrow> (r, s\<lparr>rng := rs\<rparr>))"

definition bind_f :: "fault + 'a \<Rightarrow> ('a \<Rightarrow> fault + 'b) \<Rightarrow> fault + 'b" where
  "bind_f m f = (case m of Inl e \<Rightarrow> Inl e | Inr x \<Rightarrow> f x)"

text \<open>Reading and writing \<^verbatim>\<open>pendingSessions[i]\<close>, an array of 50 elements.\<close>

definition arr_get :: "Session list \<Rightarrow> int \<Rightarrow> fault + Session" where
  "arr_get a i =
     (if 0 \<le> i \<and> i < MAX_PENDING_SESSIONS then Inr (a ! nat i) else Inl OutOfBounds)"

definition arr_set :: "Session list \<Rightarrow> int \<Rightarrow> Session \<Rightarrow> fault + Session list" where
  "arr_set a i r =
     (if 0 \<le> i \<and> i < MAX_PENDING_SESSIONS then Inr (a[nat i := r]) else Inl OutOfBounds)"

subsection \<open>Flash storage\<close>

text \<open>
  \<^verbatim>\<open>Preferences::getBytes\<close> copies the stored blob when it fits in the length asked
  for, and nothing otherwise.
\<close>

definition loadFromFlash :: "dev \<Rightarrow> dev" where
  "loadFromFlash s =
     (let s1 = s\<lparr>totalSeconds := flash_totalSec s, pendingSessionCount := flash_pendingCnt s\<rparr>;
          s2 = (if pendingSessionCount s1 > 0 \<and> pendingSessionCount s1 \<le> MAX_PENDING_SESSIONS
                then (if int (length (flash_sessions s1)) \<le> pendingSessionCount s1
                      then s1\<lparr>pendingSessions :=
                             flash_sessions s1 @ drop (length (flash_sessions s1)) (pendingSessions s1)\<rparr>
                      else s1)
                else s1\<lparr>pendingSessionCount := 0\<rparr>)
      in emit (Serial ''Loaded: %d total seconds, %d pending sessions'') s2)"

text \<open>
  \<^verbatim>\<open>putBytes\<close> reads \<^verbatim>\<open>sizeof(Session) * pendingSessionCount\<close> bytes from the start
  of the array: a block inside the array as long as the count is at most 50.
\<close>

definition saveToFlash :: "dev \<Rightarrow> fault + dev" where
  "saveToFlash s =
     (let s1 = s\<lparr>flash_totalSec := totalSeconds s, flash_pendingCnt := pendingSessionCount s\<rparr>
      in if pendingSessionCount s1 > 0
         then (if pendingSessionCount s1 \<le> MAX_PENDING_SESSIONS
               then Inr (s1\<lparr>flash_sessions :=
                              take (nat (pendingSessionCount s1)) (pendingSessions s1)\<rparr>)
               else Inl OutOfBounds)
         else Inr s1)"

subsection \<open>Utilities\<close>

definition hexdigit :: "nat \<Rightarrow> char" where
  "hexdigit d = ''0123456789abcdef'' ! d"

text \<open>\<^verbatim>\<open>%0kx\<close> of a value below \<open>16 ^ k\<close>, which every argument of the format is.\<close>

fun hex_fixed :: "nat \<Rightarrow> nat \<Rightarrow> string" where
  "hex_fixed 0 n = []"
| "hex_fixed (Suc k) n = hex_fixed k (n div 16) @ [hexdigit (n mod 16)]"

text \<open>
  The text \<^verbatim>\<open>snprintf\<close> writes for the format
  \<^verbatim>\<open>"%08x-%04x-4%03x-%04x-%012llx"\<close> into a buffer of 37 bytes.
\<close>

definition uuid_format :: "u32 \<Rightarrow> u32 \<Rightarrow> u32 \<Rightarrow> u32 \<Rightarrow> string" where
  "uuid_format r1 r2 r3 r4 =
     take 36
       (hex_fixed 8 (unat r1) @ ''-'' @
        hex_fixed 4 (unat (ucast (drop_bit 16 r2) :: u16)) @ ''-4'' @
        hex_fixed 3 (unat (ucast (r2 AND 0x0FFF) :: u16)) @ ''-'' @
        hex_fixed 4 (unat (ucast ((r3 AND 0x3FFF) OR 0x8000) :: u16)) @ ''-'' @
        hex_fixed 12 (unat (push_bit 32 (ucast (drop_bit 16 r3) :: u64) OR ucast r4)))"

definition generateUUID :: "dev \<Rightarrow> string \<times> dev" where
  "generateUUID s =
     (let (r1, s1) = esp_random s;
          (r2, s2) = esp_random s1;
          (r3, s3) = esp_random s2;
          (r4, s4) = esp_random s3
      in (uuid_format r1 r2 r3 r4, s4))"

section \<open>Session storage\<close>

text \<open>
  The shifting loop of \<^verbatim>\<open>addPendingSession\<close>:
  \<^verbatim>\<open>for (int i = 0; i < MAX_PENDING_SESSIONS - 1; i++) pendingSessions[i] = pendingSessions[i + 1];\<close>
\<close>

function shift_loop :: "int \<Rightarrow> Session list \<Rightarrow> fault + Session list" where
  "shift_loop i a =
     (if i < MAX_PENDING_SESSIONS - 1
      then (case arr_get a (i + 1) of
              Inl e \<Rightarrow> Inl e
            | Inr r \<Rightarrow> (case arr_set a i r of
                         Inl e \<Rightarrow> Inl e
                       | Inr a' \<Rightarrow> shift_loop (i + 1) a'))
      else Inr a)"
  by pat_completeness auto
termination
  by (relation "measure (\<lambda>(i, a). nat (MAX_PENDING_SESSIONS - 1 - i))") auto

definition addPendingSession :: "u32 \<Rightarrow> u32 \<Rightarrow> u32 \<Rightarrow> dev \<Rightarrow> fault + dev" where
  "addPendingSession start end' duration s =
     bind_f (if pendingSessionCount s \<ge> MAX_PENDING_SESSIONS
             then bind_f (shift_loop 0 (pendingSessions s))
                    (\<lambda>a. Inr (s\<lparr>pendingSessions := a,
                                pendingSessionCount := MAX_PENDING_SESSIONS - 1\<rparr>))
             else Inr s)
       (\<lambda>s1. let (u, s2) = generateUUID s1;
                 session = \<lparr>uuid = take 36 u, startTime = start, endTime = end',
                            durationSeconds = duration, synced = False\<rparr>
             in bind_f (arr_set (pendingSessions s2) (pendingSessionCount s2) session)
                  (\<lambda>a. saveToFlash
                     (emit (Serial ''Session added: %s, duration %d seconds'')
                        (s2\<lparr>pendingSessions := a,
                            pendingSessionCount := pendingSessionCount s2 + 1\<rparr>))))"

text \<open>
  The stored records, oldest first: the first \<^verbatim>\<open>pendingSessionCount\<close> elements of the
  array.
\<close>

definition session_log :: "dev \<Rightarrow> Session list" where
  "session_log s = take (nat (pendingSessionCount s)) (pendingSessions s)"

text \<open>
  A C string ends at its first zero byte. \<^verbatim>\<open>strcmp\<close> compares two texts up to there
  (\<^verbatim>\<open>strcmp(a, b) == 0\<close> is \<open>c_str a = c_str b\<close>), and the assignment of a
  \<^verbatim>\<open>char\<close> array to a JSON member copies it up to there.
\<close>

definition c_str :: "string \<Rightarrow> string" where
  "c_str u = takeWhile (\<lambda>c. c \<noteq> CHR 0x00) u"

definition session_json :: "Session \<Rightarrow> json" where
  "session_json r =
     JObj [(''uuid'', JStr (c_str (uuid r))),
           (''startTime'', JInt (uint (ucast (startTime r) * 1000 :: u64))),
           (''endTime'', JInt (uint (ucast (endTime r) * 1000 :: u64))),
           (''durationSeconds'', JInt (uint (durationSeconds r)))]"

function sessions_json_loop :: "int \<Rightarrow> dev \<Rightarrow> json list \<Rightarrow> fault + json list" where
  "sessions_json_loop i s arr =
     (if i < pendingSessionCount s
      then (case arr_get (pendingSessions s) i of
              Inl e \<Rightarrow> Inl e
            | Inr r \<Rightarrow> sessions_json_loop (i + 1) s
                       (if \<not> synced r then arr @ [session_json r] else arr))
      else Inr arr)"
  by pat_completeness auto
termination
  by (relation "measure (\<lambda>(i, s, arr). nat (pendingSessionCount s - i))") auto

definition getPendingSessionsJSON :: "dev \<Rightarrow> fault + json" where
  "getPendingSessionsJSON s = bind_f (sessions_json_loop 0 s []) (\<lambda>arr. Inr (JArr arr))"

text \<open>
  ArduinoJson's conversions: \<^verbatim>\<open>as<JsonArray>()\<close> and the conversion to
  \<^verbatim>\<open>JsonObject\<close> give an empty (null) container for a value of another kind,
  \<^verbatim>\<open>as<const char*>()\<close> gives a null pointer for a value that is not a string, a
  missing member is null, and \<^verbatim>\<open>v | d\<close> is \<open>v\<close> when it has the type of \<open>d\<close> and
  \<open>d\<close> otherwise.
\<close>

definition as_array :: "json \<Rightarrow> json list" where
  "as_array v = (case v of JArr xs \<Rightarrow> xs | _ \<Rightarrow> [])"

definition as_object :: "json \<Rightarrow> (string \<times> json) list" where
  "as_object v = (case v of JObj kvs \<Rightarrow> kvs | _ \<Rightarrow> [])"

definition as_cstr :: "json \<Rightarrow> string option" where
  "as_cstr v = (case v of JStr u \<Rightarrow> Some u | _ \<Rightarrow> None)"

definition member :: "(string \<times> json) list \<Rightarrow> string \<Rightarrow> json" where
  "member kvs k = (case map_of kvs k of Some v \<Rightarrow> v | None \<Rightarrow> JNull)"

definition int_or :: "json \<Rightarrow> int \<Rightarrow> int" where
  "int_or v d =
     (case v of JInt n \<Rightarrow> if - (2 ^ 31) \<le> n \<and> n < 2 ^ 31 then n else d | _ \<Rightarrow> d)"

definition bool_or :: "json \<Rightarrow> bool \<Rightarrow> bool" where
  "bool_or v d = (case v of JBool b \<Rightarrow> b | _ \<Rightarrow> d)"

text \<open>
  The inner loop of \<^verbatim>\<open>markSessionsSynced\<close>: the first stored record whose uuid
  \<^verbatim>\<open>strcmp\<close> finds equal to the acknowledged one is flagged, and the loop breaks.
\<close>

function mark_loop :: "int \<Rightarrow> string option \<Rightarrow> dev \<Rightarrow> fault + dev" where
  "mark_loop i u s =
     (if i < pendingSessionCount s
      then (case arr_get (pendingSessions s) i of
              Inl e \<Rightarrow> Inl e
            | Inr r \<Rightarrow>
                (case u of
                   None \<Rightarrow> Inl NullPointer
                 | Some v \<Rightarrow>
                     if c_str (uuid r) = c_str v
                     then (case arr_set (pendingSessions s) i (r\<lparr>synced := True\<rparr>) of
                             Inl e \<Rightarrow> Inl e
                           | Inr a \<Rightarrow> Inr (emit (Serial ''Session marked synced: %s'')
                                             (s\<lparr>pendingSessions := a\<rparr>)))
                     else mark_loop (i + 1) u s))
      else Inr s)"
  by pat_completeness auto
termination
  by (relation "measure (\<lambda>(i, u, s). nat (pendingSessionCount s - i))") auto

fun mark_all :: "json list \<Rightarrow> dev \<Rightarrow> fault + dev" where
  "mark_all [] s = Inr s"
| "mark_all (v # vs) s =
     (case mark_loop 0 (as_cstr v) s of Inl e \<Rightarrow> Inl e | Inr s' \<Rightarrow> mark_all vs s')"

text \<open>The clean-up loop, with its \<^verbatim>\<open>writeIndex\<close>.\<close>

function compact_loop :: "int \<Rightarrow> int \<Rightarrow> dev \<Rightarrow> fault + dev" where
  "compact_loop i writeIndex s =
     (if i < pendingSessionCount s
      then (case arr_get (pendingSessions s) i of
              Inl e \<Rightarrow> Inl e
            | Inr r \<Rightarrow>
                if \<not> synced r
                then (if writeIndex \<noteq> i
                      then (case arr_set (pendingSessions s) writeIndex r of
                              Inl e \<Rightarrow> Inl e
                            | Inr a \<Rightarrow> compact_loop (i + 1) (writeIndex + 1)
                                        (s\<lparr>pendingSessions := a\<rparr>))
                      else compact_loop (i + 1) (writeIndex + 1) s)
                else compact_loop (i + 1) writeIndex s)
      else Inr (s\<lparr>pendingSessionCount := writeIndex\<rparr>))"
  by pat_completeness auto
termination
  by (relation "measure (\<lambda>(i, w, s). nat (pendingSessionCount s - i))") auto

definition markSessionsSynced :: "json option \<Rightarrow> dev \<Rightarrow> fault + dev" where
  "markSessionsSynced doc s =
     (case doc of
        None \<Rightarrow> Inr (emit (Serial ''Failed to parse sync ack JSON'') s)
      | Some d \<Rightarrow>
          bind_f (mark_all (as_array d) s)
            (\<lambda>s1. bind_f (compact_loop 0 0 s1) (\<lambda>s2. saveToFlash s2)))"

section \<open>Plan storage\<close>

definition storePlans :: "json option \<Rightarrow> dev \<Rightarrow> fault + dev" where
  "storePlans doc s =
     (case doc of
        None \<Rightarrow> Inr (emit (Serial ''Failed to parse plans JSON'') s)
      | Some d \<Rightarrow>
          (let arr = as_array d;
               s1 = (if length arr > 0
                     then (let plan = as_object (arr ! 0)
                           in emit (Serial ''Plan received: %d minutes, enforce=%d'')
                                (s\<lparr>todaysPlan := (todaysPlan s)
                                     \<lparr>date := of_int (int_or (member plan ''date'') 0),
                                      durationMinutes := of_int (int_or (member plan ''duration'') 0),
                                      enforceGoal := bool_or (member plan ''enforceGoal'') False,
                                      active := True\<rparr>\<rparr>))
                     else s\<lparr>todaysPlan := (todaysPlan s)\<lparr>active := False\<rparr>\<rparr>)
           in saveToFlash s1))"

definition storeTotalHours :: "u32 \<Rightarrow> dev \<Rightarrow> fault + dev" where
  "storeTotalHours total' s =
     bind_f (saveToFlash (s\<lparr>totalSeconds := total'\<rparr>))
       (\<lambda>s1. Inr (emit (Serial ''Total hours updated: %d seconds'') s1))"

section \<open>Haptic feedback and LED\<close>

function pulseMotor_loop :: "int \<Rightarrow> int \<Rightarrow> dev \<Rightarrow> dev" where
  "pulseMotor_loop i count s =
     (if i < count
      then (let s1 = emit MotorLow (delay MOTOR_PULSE_MS (emit MotorHigh s));
                s2 = (if i < count - 1 then delay MOTOR_PAUSE_MS s1 else s1)
            in pulseMotor_loop (i + 1) count s2)
      else s)"
  by pat_completeness auto
termination
  by (relation "measure (\<lambda>(i, count, s). nat (count - i))") auto

definition pulseMotor :: "int \<Rightarrow> dev \<Rightarrow> dev" where
  "pulseMotor count s = pulseMotor_loop 0 count s"

definition breatheLED :: "dev \<Rightarrow> dev" where
  "breatheLED s = emit (LedShow Breath) (s\<lparr>leds0 := Breath\<rparr>)"

definition offLED :: "dev \<Rightarrow> dev" where
  "offLED s = emit (LedShow Black) (s\<lparr>leds0 := Black\<rparr>)"

text \<open>
  The five lines that follow each ``Update BLE status'' comment of the firmware:
  the characteristic takes the one-byte phase code, and a connected client is notified.
\<close>

definition updateStatus :: "State \<Rightarrow> dev \<Rightarrow> dev" where
  "updateStatus st s =
     (let s1 = s\<lparr>statusChar := [state_code st]\<rparr>
      in if deviceConnected s1 then emit (StatusNotify (statusChar s1)) s1 else s1)"

section \<open>Session control\<close>

text \<open>
  \<^verbatim>\<open>durationMinutes * 60 * 1000\<close> is computed in \<^verbatim>\<open>int\<close> and stored in a
  \<^verbatim>\<open>uint32_t\<close>; the product is below \<open>2 ^ 32\<close> for every 16-bit value, so the stored
  word is the product (on the two's-complement target).
\<close>

definition startSession :: "dev \<Rightarrow> dev" where
  "startSession s =
     (let s1 = emit (Serial ''Starting session'') s;
          s2 = s1\<lparr>currentState := ACTIVE, sessionStartTime := millis s1,
                  sessionDuration := 0, goalReached := False\<rparr>;
          s3 = (if active (todaysPlan s2) \<and> durationMinutes (todaysPlan s2) > 0
                then s2\<lparr>goalDuration := ucast (durationMinutes (todaysPlan s2)) * 60 * 1000\<rparr>
                else s2\<lparr>goalDuration := 0\<rparr>);
          s4 = pulseMotor 1 s3;
          s5 = delay 100 (emit (LedShow White) (s4\<lparr>leds0 := White\<rparr>))
      in updateStatus ACTIVE s5)"

definition endSession :: "dev \<Rightarrow> fault + dev" where
  "endSession s =
     (let s1 = emit (Serial ''Ending session'') s;
          endTime_ms = millis s1;
          s2 = s1\<lparr>sessionDuration := endTime_ms - sessionStartTime s1\<rparr>
      in bind_f (if sessionDuration s2 \<ge> 10000
                 then (let duration_s = sessionDuration s2 div 1000
                       in bind_f (addPendingSession (sessionStartTime s2 div 1000)
                                    (endTime_ms div 1000) duration_s s2)
                            (\<lambda>s3. saveToFlash
                                         (s3\<lparr>totalSeconds := totalSeconds s3 + duration_s\<rparr>)))
                 else Inr s2)
           (\<lambda>s4. let s5 = pulseMotor 3 s4;
                     s6 = updateStatus SETTLING (s5\<lparr>currentState := SETTLING\<rparr>)
                 in Inr (emit (LedShow White) (s6\<lparr>leds0 := White\<rparr>))))"

definition completeWithGoal :: "dev \<Rightarrow> fault + dev" where
  "completeWithGoal s =
     (let s1 = (emit (Serial ''Goal reached!'') s)\<lparr>goalReached := True\<rparr>;
          s2 = pulseMotor 3 s1
      in if enforceGoal (todaysPlan s2) then endSession s2 else Inr s2)"

section \<open>Touch handling\<close>

text \<open>The \<^verbatim>\<open>switch (currentState)\<close> that a valid squeeze gesture dispatches to.\<close>

definition squeezeAction :: "dev \<Rightarrow> fault + dev" where
  "squeezeAction s =
     (case currentState s of
        IDLE \<Rightarrow> Inr (startSession s)
      | ACTIVE \<Rightarrow> endSession s
      | SETTLING \<Rightarrow> Inr (offLED (s\<lparr>currentState := IDLE\<rparr>))
      | PENDING \<Rightarrow> Inr s)"

definition handleTouch :: "bool \<Rightarrow> bool \<Rightarrow> dev \<Rightarrow> fault + dev" where
  "handleTouch leftPressed rightPressed s =
     (let squeezing = leftPressed \<and> rightPressed;
          s1 = (if squeezing \<and> \<not> lastSqueezeState s
                then s\<lparr>squeezeStartTime := millis s\<rparr> else s)
      in bind_f (if squeezing \<and> lastSqueezeState s1
                 then (let holdDuration = millis s1 - squeezeStartTime s1
                       in if holdDuration \<ge> SQUEEZE_HOLD_MS
                          then bind_f (squeezeAction s1)
                                 (\<lambda>s2. Inr (s2\<lparr>squeezeStartTime := millis s2 + 1000\<rparr>))
                          else Inr s1)
                 else Inr s1)
           (\<lambda>s3. Inr (s3\<lparr>lastSqueezeState := squeezing\<rparr>)))"

text \<open>
  The condition under which \<^verbatim>\<open>handleTouch\<close> reaches its ``valid squeeze gesture
  detected'' branch, read off the two nested tests.
\<close>

definition squeezeConfirmed :: "bool \<Rightarrow> bool \<Rightarrow> dev \<Rightarrow> bool" where
  "squeezeConfirmed leftPressed rightPressed s \<longleftrightarrow>
     leftPressed \<and> rightPressed \<and> lastSqueezeState s \<and>
     millis s - squeezeStartTime s \<ge> SQUEEZE_HOLD_MS"

section \<open>LED control and BLE updates\<close>

definition updateLED :: "dev \<Rightarrow> fault + dev" where
  "updateLED s =
     (let now = millis s
      in case currentState s of
           IDLE \<Rightarrow> Inr (if leds0 s \<noteq> Black then emit (LedShow Black) (s\<lparr>leds0 := Black\<rparr>) else s)
         | ACTIVE \<Rightarrow>
             (let s1 = breatheLED s
              in if goalDuration s1 > 0 \<and> \<not> goalReached s1
                 then (let elapsed = now - sessionStartTime s1
                       in if elapsed \<ge> goalDuration s1 then completeWithGoal s1 else Inr s1)
                 else Inr s1)
         | SETTLING \<Rightarrow>
             (let s1 = (if settlingStart s = 0 then s\<lparr>settlingStart := now\<rparr> else s);
                  elapsed = now - settlingStart s1
              in if elapsed < COMPLETION_GLOW_MS
                 then Inr (emit (LedShow White) (s1\<lparr>leds0 := White\<rparr>))
                 else Inr (updateStatus IDLE (offLED (s1\<lparr>currentState := IDLE, settlingStart := 0\<rparr>))))
         | PENDING \<Rightarrow> Inr s)"

definition updateBLE :: "dev \<Rightarrow> fault + dev" where
  "updateBLE s =
     (let s1 = s\<lparr>hoursChar := totalSeconds s\<rparr>
      in bind_f (getPendingSessionsJSON s1) (\<lambda>j. Inr (s1\<lparr>sessionsChar := j\<rparr>)))"

section \<open>Main loop, BLE callbacks, boot\<close>

definition loop :: "bool \<Rightarrow> bool \<Rightarrow> dev \<Rightarrow> fault + dev" where
  "loop leftPressed rightPressed s =
     bind_f (handleTouch leftPressed rightPressed s)
       (\<lambda>s1. bind_f (updateLED s1)
          (\<lambda>s2. bind_f (updateBLE s2) (\<lambda>s3. Inr (delay 10 s3))))"

definition onConnect :: "dev \<Rightarrow> dev" where
  "onConnect s = emit (Serial ''BLE client connected'') (s\<lparr>deviceConnected := True\<rparr>)"

definition onDisconnect :: "dev \<Rightarrow> dev" where
  "onDisconnect s = emit (Serial ''BLE client disconnected'') (s\<lparr>deviceConnected := False\<rparr>)"

text \<open>
  The three write callbacks. \<open>value'\<close> is the payload written, \<open>doc\<close> what
  \<^verbatim>\<open>deserializeJson\<close> makes of it.
\<close>

definition PlansCallback_onWrite :: "string \<Rightarrow> json option \<Rightarrow> dev \<Rightarrow> fault + dev" where
  "PlansCallback_onWrite value' doc s = (if length value' > 0 then storePlans doc s else Inr s)"

definition AckCallback_onWrite :: "string \<Rightarrow> json option \<Rightarrow> dev \<Rightarrow> fault + dev" where
  "AckCallback_onWrite value' doc s =
     (if length value' > 0 then markSessionsSynced doc s else Inr s)"

text \<open>\<^verbatim>\<open>memcpy(&total, value.data(), 4)\<close> on the little-endian target.\<close>

definition TotalCallback_onWrite :: "u8 list \<Rightarrow> dev \<Rightarrow> fault + dev" where
  "TotalCallback_onWrite value' s =
     (if length value' \<ge> 4 then storeTotalHours (word_rcat (rev (take 4 value'))) s else Inr s)"

definition zero_session :: Session where
  "zero_session = \<lparr>uuid = [], startTime = 0, endTime = 0, durationSeconds = 0, synced = False\<rparr>"

text \<open>
  The globals as their initialisers leave them, over a given flash content and a given
  supply of random words.
\<close>

definition power_on :: "u32 \<Rightarrow> int \<Rightarrow> Session list \<Rightarrow> u32 list \<Rightarrow> dev" where
  "power_on ftotal fcount fsessions rnd =
     \<lparr>currentState = IDLE, sessionStartTime = 0, sessionDuration = 0, totalSeconds = 0,
      goalDuration = 0, goalReached = False, lastSqueezeState = False, squeezeStartTime = 0,
      leds0 = Black, deviceConnected = False,
      pendingSessions = replicate (nat MAX_PENDING_SESSIONS) zero_session,
      pendingSessionCount = 0,
      todaysPlan = \<lparr>date = 0, durationMinutes = 0, enforceGoal = False, active = False\<rparr>,
      settlingStart = 0, statusChar = [], hoursChar = 0, sessionsChar = JNull,
      clock = 0, rng = rnd,
      flash_totalSec = ftotal, flash_pendingCnt = fcount, flash_sessions = fsessions,
      trace = []\<rparr>"

definition setup_device :: "dev \<Rightarrow> dev" where
  "setup_device s =
     (let s1 = emit (Serial ''Meditation Band starting...'') (delay 1000 s);
          s2 = emit MotorLow s1;
          s3 = emit (LedShow Black) (s2\<lparr>leds0 := Black\<rparr>);
          s4 = loadFromFlash s3;
          s5 = emit (Serial ''BLE advertising started'') s4
      in emit (Serial ''Ready. Squeeze to start meditation.'') s5)"

text \<open>
  What can happen to the running device: an iteration of \<^verbatim>\<open>loop()\<close> that starts when
  \<^verbatim>\<open>millis()\<close> reads \<open>now\<close> and finds the two touch pins at the given levels, a client
  connecting or disconnecting, or a write to one of the three writable characteristics.
  The callbacks are taken to run between two iterations of the loop.
\<close>

datatype input =
    Tick bool bool u32
  | Connect
  | Disconnect
  | PlansWrite string "json option"
  | AckWrite string "json option"
  | TotalWrite "u8 list"

fun step :: "input \<Rightarrow> dev \<Rightarrow> fault + dev" where
  "step (Tick l r now) s = loop l r (s\<lparr>clock := now\<rparr>)"
| "step Connect s = Inr (onConnect s)"
| "step Disconnect s = Inr (onDisconnect s)"
| "step (PlansWrite v doc) s = PlansCallback_onWrite v doc s"
| "step (AckWrite v doc) s = AckCallback_onWrite v doc s"
| "step (TotalWrite v) s = TotalCallback_onWrite v s"

fun run :: "input list \<Rightarrow> dev \<Rightarrow> fault + dev" where
  "run [] s = Inr s"
| "run (x # xs) s = (case step x s of Inl e \<Rightarrow> Inl e | Inr s' \<Rightarrow> run xs s')"

section \<open>Notions used to state the properties\<close>

text \<open>
  The array invariant: the array has its 50 elements and the count is an index into it
  or its length.
\<close>

definition array_ok :: "dev \<Rightarrow> bool" where
  "array_ok s \<longleftrightarrow>
     int (length (pendingSessions s)) = MAX_PENDING_SESSIONS \<and>
     0 \<le> pendingSessionCount s \<and> pendingSessionCount s \<le> MAX_PENDING_SESSIONS"

text \<open>
  What \<^verbatim>\<open>saveToFlash\<close>, \<^verbatim>\<open>storePlans\<close> and \<^verbatim>\<open>storeTotalHours\<close> return when the
  flush stays inside the array.
\<close>

definition flushed :: "dev \<Rightarrow> dev" where
  "flushed s =
     (let s1 = s\<lparr>flash_totalSec := totalSeconds s, flash_pendingCnt := pendingSessionCount s\<rparr>
      in if pendingSessionCount s1 > 0
         then s1\<lparr>flash_sessions := take (nat (pendingSessionCount s1)) (pendingSessions s1)\<rparr>
         else s1)"

definition plans_stored :: "json option \<Rightarrow> dev \<Rightarrow> dev" where
  "plans_stored doc s =
     (case doc of
        None \<Rightarrow> emit (Serial ''Failed to parse plans JSON'') s
      | Some d \<Rightarrow>
          (let arr = as_array d;
               s1 = (if length arr > 0
                     then (let plan = as_object (arr ! 0)
                           in emit (Serial ''Plan received: %d minutes, enforce=%d'')
                                (s\<lparr>todaysPlan := (todaysPlan s)
                                     \<lparr>date := of_int (int_or (member plan ''date'') 0),
                                      durationMinutes := of_int (int_or (member plan ''duration'') 0),
                                      enforceGoal := bool_or (member plan ''enforceGoal'') False,
                                      active := True\<rparr>\<rparr>))
                     else s\<lparr>todaysPlan := (todaysPlan s)\<lparr>active := False\<rparr>\<rparr>)
           in flushed s1))"

definition total_stored :: "u32 \<Rightarrow> dev \<Rightarrow> dev" where
  "total_stored total' s =
     emit (Serial ''Total hours updated: %d seconds'') (flushed (s\<lparr>totalSeconds := total'\<rparr>))"

text \<open>A result that is not an out-of-bounds access and, when a state, keeps the invariant.\<close>

definition in_bounds :: "fault + dev \<Rightarrow> bool" where
  "in_bounds r = (case r of Inl e \<Rightarrow> e \<noteq> OutOfBounds | Inr s \<Rightarrow> array_ok s)"

text \<open>Looking at one aspect of a result.\<close>

definition observe :: "(dev \<Rightarrow> 'a) \<Rightarrow> fault + dev \<Rightarrow> fault + 'a" where
  "observe f r = (case r of Inl e \<Rightarrow> Inl e | Inr s \<Rightarrow> Inr (f s))"

definition notifications :: "dev \<Rightarrow> u8 list list" where
  "notifications s = concat (map (\<lambda>e. case e of StatusNotify v \<Rightarrow> [v] | _ \<Rightarrow> []) (trace s))"

definition log_times :: "dev \<Rightarrow> (u32 \<times> u32 \<times> u32) list" where
  "log_times s = map (\<lambda>r. (startTime r, endTime r, durationSeconds r)) (session_log s)"

text \<open>
  The uuid \<^verbatim>\<open>generateUUID\<close> makes of the next four random words (a missing word
  reads 0), and the records that a series of calls of \<^verbatim>\<open>addPendingSession\<close> writes.
\<close>

definition uuid_of_rng :: "u32 list \<Rightarrow> string" where
  "uuid_of_rng rs =
     uuid_format (if 0 < length rs then rs ! 0 else 0) (if 1 < length rs then rs ! 1 else 0)
       (if 2 < length rs then rs ! 2 else 0) (if 3 < length rs then rs ! 3 else 0)"

fun inserted :: "(u32 \<times> u32 \<times> u32) list \<Rightarrow> u32 list \<Rightarrow> Session list" where
  "inserted [] rs = []"
| "inserted ((a, b, c) # xs) rs =
     \<lparr>uuid = take 36 (uuid_of_rng rs), startTime = a, endTime = b, durationSeconds = c,
      synced = False\<rparr> # inserted xs (drop 4 rs)"

fun appendAll :: "(u32 \<times> u32 \<times> u32) list \<Rightarrow> dev \<Rightarrow> fault + dev" where
  "appendAll [] s = Inr s"
| "appendAll ((a, b, c) # xs) s =
     (case addPendingSession a b c s of Inl e \<Rightarrow> Inl e | Inr s' \<Rightarrow> appendAll xs s')"

text \<open>The record that \<^verbatim>\<open>addPendingSession\<close> writes in state \<open>s\<close>.\<close>

definition new_record :: "u32 \<Rightarrow> u32 \<Rightarrow> u32 \<Rightarrow> dev \<Rightarrow> Session" where
  "new_record a b c s = \<lparr>uuid = take 36 (uuid_of_rng (rng s)), startTime = a, endTime = b,
      durationSeconds = c, synced = False\<rparr>"

text \<open>On a list of records, what the inner loop of \<^verbatim>\<open>markSessionsSynced\<close> does.\<close>

fun mark_first :: "string \<Rightarrow> Session list \<Rightarrow> Session list" where
  "mark_first v [] = []"
| "mark_first v (r # rs) =
     (if c_str (uuid r) = c_str v then r\<lparr>synced := True\<rparr> # rs else r # mark_first v rs)"

text \<open>
  The condition under which \<^verbatim>\<open>updateLED\<close> calls \<^verbatim>\<open>completeWithGoal\<close>, read off
  its \<^verbatim>\<open>ACTIVE\<close> case.
\<close>

definition goalDue :: "dev \<Rightarrow> bool" where
  "goalDue s \<longleftrightarrow>
     currentState s = ACTIVE \<and> goalDuration s > 0 \<and> \<not> goalReached s \<and>
     millis s - sessionStartTime s \<ge> goalDuration s"

text \<open>
  The plan that \<^verbatim>\<open>storePlans\<close> reads from the first element of an uploaded array: a
  member that is missing or of another type gives its default, whatever the element is.
\<close>

definition uploaded_plan :: "json \<Rightarrow> Plan" where
  "uploaded_plan x =
     \<lparr>date = of_int (int_or (member (as_object x) ''date'') 0),
      durationMinutes = of_int (int_or (member (as_object x) ''duration'') 0),
      enforceGoal = bool_or (member (as_object x) ''enforceGoal'') False,
      active = True\<rparr>"



text \<open>The phase, the value of the Status characteristic and the notifications sent.\<close>

definition status_view :: "dev \<Rightarrow> State \<times> u8 list \<times> u8 list list" where
  "status_view s = (currentState s, statusChar s, notifications s)"

text \<open>The phase, the static \<^verbatim>\<open>settlingStart\<close> and the clock.\<close>

definition settling_view :: "dev \<Rightarrow> State \<times> u32 \<times> u32" where
  "settling_view s = (currentState s, settlingStart s, clock s)"

text \<open>
  The times of the loop iterations of a run in which \<^verbatim>\<open>handleTouch\<close> takes its
  ``valid squeeze gesture detected'' branch.
\<close>

fun confirmed_ticks :: "input list \<Rightarrow> dev \<Rightarrow> u32 list" where
  "confirmed_ticks [] s = []"
| "confirmed_ticks (x # xs) s =
     (case x of
        Tick l r now \<Rightarrow> if squeezeConfirmed l r (s\<lparr>clock := now\<rparr>) then [now] else []
      | _ \<Rightarrow> []) @
     (case step x s of Inl e \<Rightarrow> [] | Inr s' \<Rightarrow> confirmed_ticks xs s')"

section \<open>Example states\<close>




text \<open>A device booting on an empty flash, with eight random words in store.\<close>

definition boot :: dev where
  "boot = setup_device (power_on 0 0 [] [1, 2, 3, 4, 5, 6, 7, 8])"

text \<open>
  Two plan uploads, as parsed: a one-minute goal that is not enforced, and a thirty-minute
  goal that is.
\<close>

definition plan_1min :: json where
  "plan_1min = JArr [JObj [(''date'', JInt 20261030), (''duration'', JInt 1),
                           (''enforceGoal'', JBool False)]]"

definition plan_1min_enforced :: json where
  "plan_1min_enforced = JArr [JObj [(''date'', JInt 20261030), (''duration'', JInt 1),
                                    (''enforceGoal'', JBool True)]]"

definition plan_30min_enforced :: json where
  "plan_30min_enforced = JArr [JObj [(''date'', JInt 20261030), (''duration'', JInt 30),
                                     (''enforceGoal'', JBool True)]]"

text \<open>
  A session started right after boot, under the plan uploaded just before, seen when
  \<^verbatim>\<open>millis()\<close> reads \<open>now\<close>.
\<close>

definition mid_session :: "json \<Rightarrow> u32 \<Rightarrow> dev" where
  "mid_session plan now = (startSession (plans_stored (Some plan) boot))\<lparr>clock := now\<rparr>"

text \<open>A session started when \<^verbatim>\<open>millis()\<close> read 1999, seen when it reads 13000.\<close>

definition session_11s :: dev where
  "session_11s = boot\<lparr>currentState := ACTIVE, sessionStartTime := 1999, clock := 13000\<rparr>"

section \<open>Basic facts\<close>

lemma bind_f_simps [simp]:
  "bind_f (Inr x) f = f x"
  "bind_f (Inl e) f = Inl e"
  by (simp_all add: bind_f_def)

declare shift_loop.simps [simp del] sessions_json_loop.simps [simp del]
  mark_loop.simps [simp del] compact_loop.simps [simp del] pulseMotor_loop.simps [simp del]

lemma arr_get_ok: "0 \<le> i \<Longrightarrow> i < 50 \<Longrightarrow> arr_get a i = Inr (a ! nat i)"
  by (simp add: arr_get_def MAX_PENDING_SESSIONS_def)

lemma arr_set_ok: "0 \<le> i \<Longrightarrow> i < 50 \<Longrightarrow> arr_set a i r = Inr (a[nat i := r])"
  by (simp add: arr_set_def MAX_PENDING_SESSIONS_def)

lemma shift_loop_nat:
  "length a = 50 \<Longrightarrow> k \<le> 49 \<Longrightarrow>
   shift_loop (int k) a = Inr (take k a @ drop (Suc k) a @ [a ! 49])"
proof (induction "49 - k" arbitrary: k a)
  case 0
  then have k: "k = 49" by simp
  have "take 49 a @ [a ! 49] = a"
    using take_Suc_conv_app_nth [of 49 a] 0 by simp
  then show ?case using 0 k
    by (subst shift_loop.simps) (simp add: MAX_PENDING_SESSIONS_def)
next
  case (Suc n)
  then have k: "k < 49" by simp
  let ?a = "a[k := a ! Suc k]"
  have step: "shift_loop (int k) a = shift_loop (int (Suc k)) ?a"
    using k by (subst shift_loop.simps) (simp add: MAX_PENDING_SESSIONS_def arr_get_ok arr_set_ok nat_add_distrib add.commute)
  have ih: "shift_loop (int (Suc k)) ?a = Inr (take (Suc k) ?a @ drop (Suc (Suc k)) ?a @ [?a ! 49])"
    using Suc k by (intro Suc.hyps(1)) simp_all
  have 1: "take (Suc k) ?a = take k a @ [a ! Suc k]"
    using Suc.prems k by (simp add: take_Suc_conv_app_nth)
  have 2: "drop (Suc k) a = a ! Suc k # drop (Suc (Suc k)) a"
    using Suc.prems k by (simp add: Cons_nth_drop_Suc)
  show ?case unfolding step ih using 1 2 k by simp
qed

lemma shift_loop_0: "length a = 50 \<Longrightarrow> shift_loop 0 a = Inr (tl a @ [a ! 49])"
  using shift_loop_nat [of a 0] by (simp add: drop_Suc)

lemma emit_fields [simp]:
  "currentState (emit e s) = currentState s"
  "sessionStartTime (emit e s) = sessionStartTime s"
  "sessionDuration (emit e s) = sessionDuration s"
  "totalSeconds (emit e s) = totalSeconds s"
  "goalDuration (emit e s) = goalDuration s"
  "goalReached (emit e s) = goalReached s"
  "lastSqueezeState (emit e s) = lastSqueezeState s"
  "squeezeStartTime (emit e s) = squeezeStartTime s"
  "leds0 (emit e s) = leds0 s"
  "deviceConnected (emit e s) = deviceConnected s"
  "pendingSessions (emit e s) = pendingSessions s"
  "pendingSessionCount (emit e s) = pendingSessionCount s"
  "todaysPlan (emit e s) = todaysPlan s"
  "settlingStart (emit e s) = settlingStart s"
  "statusChar (emit e s) = statusChar s"
  "hoursChar (emit e s) = hoursChar s"
  "sessionsChar (emit e s) = sessionsChar s"
  "clock (emit e s) = clock s"
  "rng (emit e s) = rng s"
  "flash_totalSec (emit e s) = flash_totalSec s"
  "flash_pendingCnt (emit e s) = flash_pendingCnt s"
  "flash_sessions (emit e s) = flash_sessions s"
  by (simp_all add: emit_def)

lemma delay_fields [simp]:
  "currentState (delay ms s) = currentState s"
  "sessionStartTime (delay ms s) = sessionStartTime s"
  "sessionDuration (delay ms s) = sessionDuration s"
  "totalSeconds (delay ms s) = totalSeconds s"
  "goalDuration (delay ms s) = goalDuration s"
  "goalReached (delay ms s) = goalReached s"
  "lastSqueezeState (delay ms s) = lastSqueezeState s"
  "squeezeStartTime (delay ms s) = squeezeStartTime s"
  "leds0 (delay ms s) = leds0 s"
  "deviceConnected (delay ms s) = deviceConnected s"
  "pendingSessions (delay ms s) = pendingSessions s"
  "pendingSessionCount (delay ms s) = pendingSessionCount s"
  "todaysPlan (delay ms s) = todaysPlan s"
  "settlingStart (delay ms s) = settlingStart s"
  "statusChar (delay ms s) = statusChar s"
  "hoursChar (delay ms s) = hoursChar s"
  "sessionsChar (delay ms s) = sessionsChar s"
  "rng (delay ms s) = rng s"
  "flash_totalSec (delay ms s) = flash_totalSec s"
  "flash_pendingCnt (delay ms s) = flash_pendingCnt s"
  "flash_sessions (delay ms s) = flash_sessions s"
  "trace (delay ms s) = trace s"
  by (simp_all add: delay_def)

lemma saveToFlash_ok: "pendingSessionCount s \<le> 50 \<Longrightarrow> saveToFlash s = Inr (flushed s)"
  by (simp add: saveToFlash_def flushed_def Let_def MAX_PENDING_SESSIONS_def)

lemma flushed_fields [simp]:
  "currentState (flushed s) = currentState s"
  "sessionStartTime (flushed s) = sessionStartTime s"
  "sessionDuration (flushed s) = sessionDuration s"
  "totalSeconds (flushed s) = totalSeconds s"
  "goalDuration (flushed s) = goalDuration s"
  "goalReached (flushed s) = goalReached s"
  "lastSqueezeState (flushed s) = lastSqueezeState s"
  "squeezeStartTime (flushed s) = squeezeStartTime s"
  "leds0 (flushed s) = leds0 s"
  "deviceConnected (flushed s) = deviceConnected s"
  "pendingSessions (flushed s) = pendingSessions s"
  "pendingSessionCount (flushed s) = pendingSessionCount s"
  "todaysPlan (flushed s) = todaysPlan s"
  "settlingStart (flushed s) = settlingStart s"
  "statusChar (flushed s) = statusChar s"
  "hoursChar (flushed s) = hoursChar s"
  "sessionsChar (flushed s) = sessionsChar s"
  "clock (flushed s) = clock s"
  "rng (flushed s) = rng s"
  "trace (flushed s) = trace s"
  by (simp_all add: flushed_def Let_def)

lemma updateStatus_fields [simp]:
  "currentState (updateStatus st s) = currentState s"
  "sessionStartTime (updateStatus st s) = sessionStartTime s"
  "sessionDuration (updateStatus st s) = sessionDuration s"
  "totalSeconds (updateStatus st s) = totalSeconds s"
  "goalDuration (updateStatus st s) = goalDuration s"
  "goalReached (updateStatus st s) = goalReached s"
  "lastSqueezeState (updateStatus st s) = lastSqueezeState s"
  "squeezeStartTime (updateStatus st s) = squeezeStartTime s"
  "leds0 (updateStatus st s) = leds0 s"
  "deviceConnected (updateStatus st s) = deviceConnected s"
  "pendingSessions (updateStatus st s) = pendingSessions s"
  "pendingSessionCount (updateStatus st s) = pendingSessionCount s"
  "todaysPlan (updateStatus st s) = todaysPlan s"
  "settlingStart (updateStatus st s) = settlingStart s"
  "hoursChar (updateStatus st s) = hoursChar s"
  "sessionsChar (updateStatus st s) = sessionsChar s"
  "clock (updateStatus st s) = clock s"
  "rng (updateStatus st s) = rng s"
  "flash_totalSec (updateStatus st s) = flash_totalSec s"
  "flash_pendingCnt (updateStatus st s) = flash_pendingCnt s"
  "flash_sessions (updateStatus st s) = flash_sessions s"
  by (simp_all add: updateStatus_def Let_def)

lemma offLED_fields [simp]:
  "currentState (offLED s) = currentState s"
  "sessionStartTime (offLED s) = sessionStartTime s"
  "sessionDuration (offLED s) = sessionDuration s"
  "totalSeconds (offLED s) = totalSeconds s"
  "goalDuration (offLED s) = goalDuration s"
  "goalReached (offLED s) = goalReached s"
  "lastSqueezeState (offLED s) = lastSqueezeState s"
  "squeezeStartTime (offLED s) = squeezeStartTime s"
  "deviceConnected (offLED s) = deviceConnected s"
  "pendingSessions (offLED s) = pendingSessions s"
  "pendingSessionCount (offLED s) = pendingSessionCount s"
  "todaysPlan (offLED s) = todaysPlan s"
  "settlingStart (offLED s) = settlingStart s"
  "statusChar (offLED s) = statusChar s"
  "hoursChar (offLED s) = hoursChar s"
  "sessionsChar (offLED s) = sessionsChar s"
  "clock (offLED s) = clock s"
  "rng (offLED s) = rng s"
  "flash_totalSec (offLED s) = flash_totalSec s"
  "flash_pendingCnt (offLED s) = flash_pendingCnt s"
  "flash_sessions (offLED s) = flash_sessions s"
  by (simp_all add: offLED_def)

lemma breatheLED_fields [simp]:
  "currentState (breatheLED s) = currentState s"
  "sessionStartTime (breatheLED s) = sessionStartTime s"
  "sessionDuration (breatheLED s) = sessionDuration s"
  "totalSeconds (breatheLED s) = totalSeconds s"
  "goalDuration (breatheLED s) = goalDuration s"
  "goalReached (breatheLED s) = goalReached s"
  "lastSqueezeState (breatheLED s) = lastSqueezeState s"
  "squeezeStartTime (breatheLED s) = squeezeStartTime s"
  "deviceConnected (breatheLED s) = deviceConnected s"
  "pendingSessions (breatheLED s) = pendingSessions s"
  "pendingSessionCount (breatheLED s) = pendingSessionCount s"
  "todaysPlan (breatheLED s) = todaysPlan s"
  "settlingStart (breatheLED s) = settlingStart s"
  "statusChar (breatheLED s) = statusChar s"
  "hoursChar (breatheLED s) = hoursChar s"
  "sessionsChar (breatheLED s) = sessionsChar s"
  "clock (breatheLED s) = clock s"
  "rng (breatheLED s) = rng s"
  "flash_totalSec (breatheLED s) = flash_totalSec s"
  "flash_pendingCnt (breatheLED s) = flash_pendingCnt s"
  "flash_sessions (breatheLED s) = flash_sessions s"
  by (simp_all add: breatheLED_def)

lemma pulseMotor_loop_fields:
  "currentState (pulseMotor_loop i n s) = currentState s"
  "sessionStartTime (pulseMotor_loop i n s) = sessionStartTime s"
  "sessionDuration (pulseMotor_loop i n s) = sessionDuration s"
  "totalSeconds (pulseMotor_loop i n s) = totalSeconds s"
  "goalDuration (pulseMotor_loop i n s) = goalDuration s"
  "goalReached (pulseMotor_loop i n s) = goalReached s"
  "lastSqueezeState (pulseMotor_loop i n s) = lastSqueezeState s"
  "squeezeStartTime (pulseMotor_loop i n s) = squeezeStartTime s"
  "leds0 (pulseMotor_loop i n s) = leds0 s"
  "deviceConnected (pulseMotor_loop i n s) = deviceConnected s"
  "pendingSessions (pulseMotor_loop i n s) = pendingSessions s"
  "pendingSessionCount (pulseMotor_loop i n s) = pendingSessionCount s"
  "todaysPlan (pulseMotor_loop i n s) = todaysPlan s"
  "settlingStart (pulseMotor_loop i n s) = settlingStart s"
  "statusChar (pulseMotor_loop i n s) = statusChar s"
  "hoursChar (pulseMotor_loop i n s) = hoursChar s"
  "sessionsChar (pulseMotor_loop i n s) = sessionsChar s"
  "rng (pulseMotor_loop i n s) = rng s"
  "flash_totalSec (pulseMotor_loop i n s) = flash_totalSec s"
  "flash_pendingCnt (pulseMotor_loop i n s) = flash_pendingCnt s"
  "flash_sessions (pulseMotor_loop i n s) = flash_sessions s"
  by (induction i n s rule: pulseMotor_loop.induct; subst pulseMotor_loop.simps; simp add: Let_def)+

lemma pulseMotor_fields [simp]:
  "currentState (pulseMotor n s) = currentState s"
  "sessionStartTime (pulseMotor n s) = sessionStartTime s"
  "sessionDuration (pulseMotor n s) = sessionDuration s"
  "totalSeconds (pulseMotor n s) = totalSeconds s"
  "goalDuration (pulseMotor n s) = goalDuration s"
  "goalReached (pulseMotor n s) = goalReached s"
  "lastSqueezeState (pulseMotor n s) = lastSqueezeState s"
  "squeezeStartTime (pulseMotor n s) = squeezeStartTime s"
  "leds0 (pulseMotor n s) = leds0 s"
  "deviceConnected (pulseMotor n s) = deviceConnected s"
  "pendingSessions (pulseMotor n s) = pendingSessions s"
  "pendingSessionCount (pulseMotor n s) = pendingSessionCount s"
  "todaysPlan (pulseMotor n s) = todaysPlan s"
  "settlingStart (pulseMotor n s) = settlingStart s"
  "statusChar (pulseMotor n s) = statusChar s"
  "hoursChar (pulseMotor n s) = hoursChar s"
  "sessionsChar (pulseMotor n s) = sessionsChar s"
  "rng (pulseMotor n s) = rng s"
  "flash_totalSec (pulseMotor n s) = flash_totalSec s"
  "flash_pendingCnt (pulseMotor n s) = flash_pendingCnt s"
  "flash_sessions (pulseMotor n s) = flash_sessions s"
  by (simp_all add: pulseMotor_def pulseMotor_loop_fields)

lemma esp_random_eq:
  "esp_random s = ((if 0 < length (rng s) then rng s ! 0 else 0), s\<lparr>rng := tl (rng s)\<rparr>)"
  by (cases "rng s") (simp_all add: esp_random_def)

lemma generateUUID_eq: "generateUUID s = (uuid_of_rng (rng s), s\<lparr>rng := drop 4 (rng s)\<rparr>)"
proof (cases "rng s")
  case Nil
  then show ?thesis by (simp add: generateUUID_def esp_random_def uuid_of_rng_def)
next
  case c1: (Cons r1 t1)
  show ?thesis
  proof (cases t1)
    case Nil
    with c1 show ?thesis by (simp add: generateUUID_def esp_random_def uuid_of_rng_def)
  next
    case c2: (Cons r2 t2)
    show ?thesis
    proof (cases t2)
      case Nil
      with c1 c2 show ?thesis by (simp add: generateUUID_def esp_random_def uuid_of_rng_def)
    next
      case c3: (Cons r3 t3)
      show ?thesis
      proof (cases t3)
        case Nil
        with c1 c2 c3 show ?thesis by (simp add: generateUUID_def esp_random_def uuid_of_rng_def)
      next
        case (Cons r4 t4)
        with c1 c2 c3 show ?thesis by (simp add: generateUUID_def esp_random_def uuid_of_rng_def)
      qed
    qed
  qed
qed

lemma array_ok_iff:
  "array_ok s \<longleftrightarrow> length (pendingSessions s) = 50 \<and> 0 \<le> pendingSessionCount s \<and> pendingSessionCount s \<le> 50"
  by (auto simp add: array_ok_def MAX_PENDING_SESSIONS_def)

lemma addPendingSession_eq:
  assumes "array_ok s"
  shows "addPendingSession a b c s =
     Inr (flushed (emit (Serial ''Session added: %s, duration %d seconds'')
       (s\<lparr>rng := drop 4 (rng s),
          pendingSessions :=
            (if pendingSessionCount s \<ge> 50
             then (tl (pendingSessions s) @ [pendingSessions s ! 49])[49 := new_record a b c s]
             else (pendingSessions s)[nat (pendingSessionCount s) := new_record a b c s]),
          pendingSessionCount := (if pendingSessionCount s \<ge> 50 then 50 else pendingSessionCount s + 1)\<rparr>)))"
  using assms
  by (simp add: addPendingSession_def array_ok_iff MAX_PENDING_SESSIONS_def shift_loop_0
      generateUUID_eq arr_set_ok new_record_def saveToFlash_ok)



lemma addPendingSession_log:
  assumes "array_ok s" and "addPendingSession a b c s = Inr s'"
  shows "session_log s' =
           (if pendingSessionCount s \<ge> 50 then tl (session_log s) else session_log s) @ [new_record a b c s]"
    and "array_ok s'" and "rng s' = drop 4 (rng s)"
proof -
  note eq = assms(2) [unfolded addPendingSession_eq [OF assms(1)], simplified, symmetric]
  have len: "length (pendingSessions s) = 50" and c0: "0 \<le> pendingSessionCount s"
    and c50: "pendingSessionCount s \<le> 50"
    using assms(1) by (simp_all add: array_ok_iff)
  show "array_ok s'" using len c0 c50
    by (simp add: eq array_ok_iff)
  show "rng s' = drop 4 (rng s)"
    by (simp add: eq)
  show "session_log s' =
           (if pendingSessionCount s \<ge> 50 then tl (session_log s) else session_log s) @ [new_record a b c s]"
  proof (cases "pendingSessionCount s \<ge> 50")
    case True
    then have c: "pendingSessionCount s = 50" using c50 by simp
    have "take 50 ((tl (pendingSessions s) @ [pendingSessions s ! 49])[49 := new_record a b c s])
          = tl (pendingSessions s) @ [new_record a b c s]"
      using len by (simp add: list_update_append)
    then show ?thesis using c len by (simp add: eq session_log_def)
  next
    case False
    then have n: "nat (pendingSessionCount s) < 50" using c0 by simp
    have "take (Suc (nat (pendingSessionCount s))) ((pendingSessions s)[nat (pendingSessionCount s) := new_record a b c s])
          = take (nat (pendingSessionCount s)) (pendingSessions s) @ [new_record a b c s]"
      using len n by (simp add: take_Suc_conv_app_nth)
    then show ?thesis using False c0 by (simp add: eq session_log_def nat_add_distrib)
  qed
qed

lemma length_session_log: "array_ok s \<Longrightarrow> int (length (session_log s)) = pendingSessionCount s"
  by (auto simp add: session_log_def array_ok_iff)

lemma drop_last_append:
  "drop (length (drop (length l - n) l @ ys) - n) (drop (length l - n) l @ ys)
   = drop (length (l @ ys) - n) (l @ ys)"
  by (cases "length l \<le> n") (simp_all add: add.commute)

lemma new_record_inserted: "inserted ((a, b, c) # xs) (rng s) = new_record a b c s # inserted xs (drop 4 (rng s))"
  by (simp add: new_record_def)

lemma appendAll_log:
  "array_ok s \<Longrightarrow>
   \<exists>s'. appendAll xs s = Inr s' \<and> array_ok s' \<and>
        session_log s' = drop (length (session_log s @ inserted xs (rng s)) - 50)
                           (session_log s @ inserted xs (rng s))"
proof (induction xs arbitrary: s)
  case Nil
  then show ?case using length_session_log [of s] by (simp add: array_ok_iff)
next
  case (Cons x xs)
  obtain a b c where x: "x = (a, b, c)" by (cases x)
  from addPendingSession_eq [OF Cons.prems, of a b c]
  obtain s1 where s1: "addPendingSession a b c s = Inr s1" by blast
  note f = addPendingSession_log [OF Cons.prems s1]
  have len: "int (length (session_log s)) = pendingSessionCount s" "pendingSessionCount s \<le> 50"
    using Cons.prems length_session_log [of s] by (simp_all add: array_ok_iff)
  have l1: "session_log s1 = drop (length (session_log s @ [new_record a b c s]) - 50)
                               (session_log s @ [new_record a b c s])"
  proof (cases "pendingSessionCount s \<ge> 50")
    case True
    then have "length (session_log s) = 50" using len by simp
    then show ?thesis using True f(1) by (simp add: drop_Suc)
  next
    case False
    then have "length (session_log s) < 50" using len by simp
    then show ?thesis using False f(1) by simp
  qed
  from Cons.IH [OF f(2)] obtain s' where s': "appendAll xs s1 = Inr s'" "array_ok s'"
    "session_log s' = drop (length (session_log s1 @ inserted xs (rng s1)) - 50)
                           (session_log s1 @ inserted xs (rng s1))" by blast
  have "session_log s' = drop (length ((session_log s @ [new_record a b c s]) @ inserted xs (drop 4 (rng s))) - 50)
                           ((session_log s @ [new_record a b c s]) @ inserted xs (drop 4 (rng s)))"
    unfolding s'(3) l1 f(3) by (rule drop_last_append)
  then show ?case using s1 s'(1,2) unfolding x new_record_inserted by simp
qed

lemma length_inserted [simp]: "length (inserted xs rs) = length xs"
  by (induction xs rs rule: inserted.induct) simp_all

lemma in_bounds_Inr [simp]: "in_bounds (Inr s) = array_ok s"
  by (simp add: in_bounds_def)

lemma in_bounds_Inl [simp]: "in_bounds (Inl e) = (e \<noteq> OutOfBounds)"
  by (simp add: in_bounds_def)

lemma in_bounds_bind:
  "in_bounds m \<Longrightarrow> (\<And>x. m = Inr x \<Longrightarrow> array_ok x \<Longrightarrow> in_bounds (f x)) \<Longrightarrow> in_bounds (bind_f m f)"
  by (cases m) simp_all

lemma mark_loop_in_bounds:
  "array_ok s \<Longrightarrow> 0 \<le> i \<Longrightarrow>
   in_bounds (mark_loop i u s) \<and>
   (\<forall>s'. mark_loop i u s = Inr s' \<longrightarrow> pendingSessionCount s' = pendingSessionCount s)"
proof (induction i u s rule: mark_loop.induct)
  case (1 i u s)
  show ?case
  proof (cases "i < pendingSessionCount s")
    case False
    then show ?thesis using "1.prems" by (subst (1 2) mark_loop.simps) simp
  next
    case True
    then have i50: "i < 50" using "1.prems" by (simp add: array_ok_iff)
    show ?thesis
    proof (cases u)
      case None
      then show ?thesis using True i50 "1.prems"
        by (subst (1 2) mark_loop.simps) (simp add: arr_get_ok)
    next
      case (Some v)
      show ?thesis
      proof (cases "c_str (uuid (pendingSessions s ! nat i)) = c_str v")
        case eq: True
        then show ?thesis using True i50 "1.prems" Some
          by (subst (1 2) mark_loop.simps) (auto simp add: arr_get_ok arr_set_ok array_ok_iff)
      next
        case ne: False
        have "mark_loop i u s = mark_loop (i + 1) u s"
          using True i50 "1.prems" Some ne
          by (subst mark_loop.simps) (simp add: arr_get_ok)
        moreover have "in_bounds (mark_loop (i + 1) u s) \<and>
          (\<forall>s'. mark_loop (i + 1) u s = Inr s' \<longrightarrow> pendingSessionCount s' = pendingSessionCount s)"
          using True i50 "1.prems" Some ne
          by (intro "1.IH") (simp_all add: arr_get_ok)
        ultimately show ?thesis by simp
      qed
    qed
  qed
qed

lemma session_log_nth:
  "array_ok s \<Longrightarrow> 0 \<le> i \<Longrightarrow> i < pendingSessionCount s \<Longrightarrow>
   session_log s ! nat i = pendingSessions s ! nat i"
  by (simp add: session_log_def)


lemma mark_all_in_bounds:
  "array_ok s \<Longrightarrow> in_bounds (mark_all vs s)"
proof (induction vs arbitrary: s)
  case Nil
  then show ?case by simp
next
  case (Cons v vs)
  from mark_loop_in_bounds [OF Cons.prems, of 0 "as_cstr v"]
  show ?case using Cons.IH by (cases "mark_loop 0 (as_cstr v) s") (simp_all add: in_bounds_def)
qed


lemma compact_loop_eq:
  "length (pendingSessions s) = 50 \<Longrightarrow> 0 \<le> w \<Longrightarrow> w \<le> i \<Longrightarrow> i \<le> pendingSessionCount s \<Longrightarrow>
   pendingSessionCount s \<le> 50 \<Longrightarrow>
   \<exists>a' n'. compact_loop i w s = Inr (s\<lparr>pendingSessions := a', pendingSessionCount := n'\<rparr>) \<and>
          length a' = 50 \<and>
          n' = w + int (length (filter (\<lambda>r. \<not> synced r) (drop (nat i) (session_log s)))) \<and>
          take (nat n') a' = take (nat w) (pendingSessions s) @
                             filter (\<lambda>r. \<not> synced r) (drop (nat i) (session_log s))"
proof (induction i w s rule: compact_loop.induct)
  case (1 i w s)
  let ?a = "pendingSessions s" and ?L = "session_log s" and ?c = "pendingSessionCount s"
  let ?U = "\<lambda>r. \<not> synced r"
  have ok: "array_ok s" using "1.prems" by (simp add: array_ok_iff)
  have len: "length ?L = nat ?c" using "1.prems" by (simp add: session_log_def)
  show ?case
  proof (cases "i < ?c")
    case False
    then have "i = ?c" using "1.prems" by simp
    then have "compact_loop i w s = Inr (s\<lparr>pendingSessions := ?a, pendingSessionCount := w\<rparr>)"
      by (subst compact_loop.simps) simp
    moreover have "drop (nat i) ?L = []" using \<open>i = ?c\<close> len by simp
    ultimately show ?thesis using "1.prems" by (intro exI [of _ ?a] exI [of _ w]) simp
  next
    case True
    then have i50: "i < 50" "0 \<le> i" and n: "nat i < length ?L" and w50: "w < 50" "nat w < length ?a"
      using "1.prems" len by simp_all
    let ?r = "?a ! nat i"
    have g: "arr_get ?a i = Inr ?r" using i50 by (simp add: arr_get_ok)
    have r: "?L ! nat i = ?r" using ok True i50 by (simp add: session_log_nth)
    have d: "drop (nat i) ?L = ?r # drop (Suc (nat i)) ?L"
      using n r by (simp add: Cons_nth_drop_Suc [symmetric])
    have Si: "nat (i + 1) = Suc (nat i)" and Sw: "nat (w + 1) = Suc (nat w)"
      using i50 "1.prems" by (simp_all add: nat_add_distrib)
    show ?thesis
    proof (cases "synced ?r")
      case sy: True
      have step: "compact_loop i w s = compact_loop (i + 1) w s"
        using True g sy by (subst compact_loop.simps) simp
      have "\<exists>a' n'. compact_loop (i + 1) w s = Inr (s\<lparr>pendingSessions := a', pendingSessionCount := n'\<rparr>) \<and>
          length a' = 50 \<and>
          n' = w + int (length (filter ?U (drop (nat (i + 1)) (session_log s)))) \<and>
          take (nat n') a' = take (nat w) (pendingSessions s) @ filter ?U (drop (nat (i + 1)) (session_log s))"
        using True g sy "1.prems" by (intro "1.IH"(3)) simp_all
      then show ?thesis unfolding step Si d using sy by simp
    next
      case un: False
      show ?thesis
      proof (cases "w = i")
        case weq: True
        have step: "compact_loop i w s = compact_loop (i + 1) (w + 1) s"
          using True g un weq by (subst compact_loop.simps) simp
        have "\<exists>a' n'. compact_loop (i + 1) (w + 1) s = Inr (s\<lparr>pendingSessions := a', pendingSessionCount := n'\<rparr>) \<and>
          length a' = 50 \<and>
          n' = (w + 1) + int (length (filter ?U (drop (nat (i + 1)) (session_log s)))) \<and>
          take (nat n') a' = take (nat (w + 1)) (pendingSessions s) @ filter ?U (drop (nat (i + 1)) (session_log s))"
          using True g un weq "1.prems" by (intro "1.IH"(2)) simp_all
        moreover have "take (Suc (nat w)) ?a = take (nat w) ?a @ [?r]"
          using w50 weq by (simp add: take_Suc_conv_app_nth)
        ultimately show ?thesis unfolding step Si Sw d using un by (simp add: add.assoc)
      next
        case wne: False
        let ?a1 = "?a[nat w := ?r]"
        let ?s1 = "s\<lparr>pendingSessions := ?a1\<rparr>"
        have wi: "nat w < nat i" using wne "1.prems" by simp
        have step: "compact_loop i w s = compact_loop (i + 1) (w + 1) ?s1"
          using True g un wne w50 "1.prems" by (subst compact_loop.simps) (simp add: arr_set_ok)
        have "\<exists>a' n'. compact_loop (i + 1) (w + 1) ?s1 = Inr (?s1\<lparr>pendingSessions := a', pendingSessionCount := n'\<rparr>) \<and>
          length a' = 50 \<and>
          n' = (w + 1) + int (length (filter ?U (drop (nat (i + 1)) (session_log ?s1)))) \<and>
          take (nat n') a' = take (nat (w + 1)) (pendingSessions ?s1) @ filter ?U (drop (nat (i + 1)) (session_log ?s1))"
          using True g un wne w50 "1.prems" by (intro "1.IH"(1)) (simp_all add: arr_set_ok)
        moreover have "take (Suc (nat w)) ?a1 = take (nat w) ?a @ [?r]"
          using w50 by (simp add: take_Suc_conv_app_nth)
        moreover have "drop (Suc (nat i)) (session_log ?s1) = drop (Suc (nat i)) ?L"
        proof -
          have "session_log ?s1 = ?L[nat w := ?r]"
            by (simp add: session_log_def take_update_swap)
          moreover have "nat w < Suc (nat i)" using wi by linarith
          ultimately show ?thesis by (simp only: drop_update_cancel)
        qed
        ultimately show ?thesis unfolding step Si Sw d using un by (simp add: add.assoc)
      qed
    qed
  qed
qed

lemma compact_loop_0:
  assumes "array_ok s"
  shows "\<exists>a' n'. compact_loop 0 0 s = Inr (s\<lparr>pendingSessions := a', pendingSessionCount := n'\<rparr>) \<and>
          array_ok (s\<lparr>pendingSessions := a', pendingSessionCount := n'\<rparr>) \<and>
          session_log (s\<lparr>pendingSessions := a', pendingSessionCount := n'\<rparr>)
            = filter (\<lambda>r. \<not> synced r) (session_log s)"
proof -
  from assms have p: "length (pendingSessions s) = 50" "0 \<le> pendingSessionCount s" "pendingSessionCount s \<le> 50"
    by (simp_all add: array_ok_iff)
  from compact_loop_eq [OF p(1) _ _ p(2) p(3), of 0]
  obtain a' n' where c: "compact_loop 0 0 s = Inr (s\<lparr>pendingSessions := a', pendingSessionCount := n'\<rparr>)"
    "length a' = 50" "n' = int (length (filter (\<lambda>r. \<not> synced r) (session_log s)))"
    "take (nat n') a' = filter (\<lambda>r. \<not> synced r) (session_log s)" by auto
  have "length (filter (\<lambda>r. \<not> synced r) (session_log s)) \<le> length (session_log s)" by simp
  also have "\<dots> \<le> 50" using p by (simp add: session_log_def)
  finally have "n' \<le> 50" using c(3) by simp
  then show ?thesis using c by (intro exI [of _ a'] exI [of _ n']) (simp add: array_ok_iff session_log_def)
qed

lemma map_uuid_mark_first [simp]: "map uuid (mark_first v l) = map uuid l"
  by (induction l) simp_all






lemma startSession_fields [simp]:
  "totalSeconds (startSession s) = totalSeconds s"
  "lastSqueezeState (startSession s) = lastSqueezeState s"
  "squeezeStartTime (startSession s) = squeezeStartTime s"
  "deviceConnected (startSession s) = deviceConnected s"
  "pendingSessions (startSession s) = pendingSessions s"
  "pendingSessionCount (startSession s) = pendingSessionCount s"
  "todaysPlan (startSession s) = todaysPlan s"
  "settlingStart (startSession s) = settlingStart s"
  "hoursChar (startSession s) = hoursChar s"
  "sessionsChar (startSession s) = sessionsChar s"
  "rng (startSession s) = rng s"
  "flash_totalSec (startSession s) = flash_totalSec s"
  "flash_pendingCnt (startSession s) = flash_pendingCnt s"
  "flash_sessions (startSession s) = flash_sessions s"
  by (simp_all add: startSession_def Let_def)

lemma plans_stored_fields [simp]:
  "currentState (plans_stored doc s) = currentState s"
  "sessionStartTime (plans_stored doc s) = sessionStartTime s"
  "sessionDuration (plans_stored doc s) = sessionDuration s"
  "totalSeconds (plans_stored doc s) = totalSeconds s"
  "goalDuration (plans_stored doc s) = goalDuration s"
  "goalReached (plans_stored doc s) = goalReached s"
  "lastSqueezeState (plans_stored doc s) = lastSqueezeState s"
  "squeezeStartTime (plans_stored doc s) = squeezeStartTime s"
  "leds0 (plans_stored doc s) = leds0 s"
  "deviceConnected (plans_stored doc s) = deviceConnected s"
  "pendingSessions (plans_stored doc s) = pendingSessions s"
  "pendingSessionCount (plans_stored doc s) = pendingSessionCount s"
  "settlingStart (plans_stored doc s) = settlingStart s"
  "statusChar (plans_stored doc s) = statusChar s"
  "hoursChar (plans_stored doc s) = hoursChar s"
  "sessionsChar (plans_stored doc s) = sessionsChar s"
  "clock (plans_stored doc s) = clock s"
  "rng (plans_stored doc s) = rng s"
  by (simp_all add: plans_stored_def Let_def split: option.splits)

lemma total_stored_fields [simp]:
  "currentState (total_stored v s) = currentState s"
  "sessionStartTime (total_stored v s) = sessionStartTime s"
  "sessionDuration (total_stored v s) = sessionDuration s"
  "goalDuration (total_stored v s) = goalDuration s"
  "goalReached (total_stored v s) = goalReached s"
  "lastSqueezeState (total_stored v s) = lastSqueezeState s"
  "squeezeStartTime (total_stored v s) = squeezeStartTime s"
  "leds0 (total_stored v s) = leds0 s"
  "deviceConnected (total_stored v s) = deviceConnected s"
  "pendingSessions (total_stored v s) = pendingSessions s"
  "pendingSessionCount (total_stored v s) = pendingSessionCount s"
  "todaysPlan (total_stored v s) = todaysPlan s"
  "settlingStart (total_stored v s) = settlingStart s"
  "statusChar (total_stored v s) = statusChar s"
  "hoursChar (total_stored v s) = hoursChar s"
  "sessionsChar (total_stored v s) = sessionsChar s"
  "clock (total_stored v s) = clock s"
  "rng (total_stored v s) = rng s"
  by (simp_all add: total_stored_def)

lemma onConnect_fields [simp]:
  "currentState (onConnect s) = currentState s"
  "sessionStartTime (onConnect s) = sessionStartTime s"
  "sessionDuration (onConnect s) = sessionDuration s"
  "totalSeconds (onConnect s) = totalSeconds s"
  "goalDuration (onConnect s) = goalDuration s"
  "goalReached (onConnect s) = goalReached s"
  "lastSqueezeState (onConnect s) = lastSqueezeState s"
  "squeezeStartTime (onConnect s) = squeezeStartTime s"
  "leds0 (onConnect s) = leds0 s"
  "pendingSessions (onConnect s) = pendingSessions s"
  "pendingSessionCount (onConnect s) = pendingSessionCount s"
  "todaysPlan (onConnect s) = todaysPlan s"
  "settlingStart (onConnect s) = settlingStart s"
  "statusChar (onConnect s) = statusChar s"
  "hoursChar (onConnect s) = hoursChar s"
  "sessionsChar (onConnect s) = sessionsChar s"
  "clock (onConnect s) = clock s"
  "rng (onConnect s) = rng s"
  "flash_totalSec (onConnect s) = flash_totalSec s"
  "flash_pendingCnt (onConnect s) = flash_pendingCnt s"
  "flash_sessions (onConnect s) = flash_sessions s"
  by (simp_all add: onConnect_def)

lemma onDisconnect_fields [simp]:
  "currentState (onDisconnect s) = currentState s"
  "sessionStartTime (onDisconnect s) = sessionStartTime s"
  "sessionDuration (onDisconnect s) = sessionDuration s"
  "totalSeconds (onDisconnect s) = totalSeconds s"
  "goalDuration (onDisconnect s) = goalDuration s"
  "goalReached (onDisconnect s) = goalReached s"
  "lastSqueezeState (onDisconnect s) = lastSqueezeState s"
  "squeezeStartTime (onDisconnect s) = squeezeStartTime s"
  "leds0 (onDisconnect s) = leds0 s"
  "pendingSessions (onDisconnect s) = pendingSessions s"
  "pendingSessionCount (onDisconnect s) = pendingSessionCount s"
  "todaysPlan (onDisconnect s) = todaysPlan s"
  "settlingStart (onDisconnect s) = settlingStart s"
  "statusChar (onDisconnect s) = statusChar s"
  "hoursChar (onDisconnect s) = hoursChar s"
  "sessionsChar (onDisconnect s) = sessionsChar s"
  "clock (onDisconnect s) = clock s"
  "rng (onDisconnect s) = rng s"
  "flash_totalSec (onDisconnect s) = flash_totalSec s"
  "flash_pendingCnt (onDisconnect s) = flash_pendingCnt s"
  "flash_sessions (onDisconnect s) = flash_sessions s"
  by (simp_all add: onDisconnect_def)

lemma pulseMotor_1: "pulseMotor 1 s = emit MotorLow (delay MOTOR_PULSE_MS (emit MotorHigh s))"
  unfolding pulseMotor_def
  by (subst pulseMotor_loop.simps, simp add: Let_def)+

lemma pulseMotor_3:
  "pulseMotor 3 s =
     emit MotorLow (delay MOTOR_PULSE_MS (emit MotorHigh
       (delay MOTOR_PAUSE_MS (emit MotorLow (delay MOTOR_PULSE_MS (emit MotorHigh
         (delay MOTOR_PAUSE_MS (emit MotorLow (delay MOTOR_PULSE_MS (emit MotorHigh s))))))))))"
  unfolding pulseMotor_def
  by (subst pulseMotor_loop.simps, simp add: Let_def)+

lemma clock_pulseMotor_3 [simp]: "clock (pulseMotor 3 s) = clock s + 850"
  by (simp add: pulseMotor_3 delay_def emit_def MOTOR_PULSE_MS_def MOTOR_PAUSE_MS_def)

lemma clock_pulseMotor_1 [simp]: "clock (pulseMotor 1 s) = clock s + 150"
  by (simp add: pulseMotor_1 delay_def emit_def MOTOR_PULSE_MS_def)

lemma trace_pulseMotor_3 [simp]:
  "trace (pulseMotor 3 s) = trace s @ [MotorHigh, MotorLow, MotorHigh, MotorLow, MotorHigh, MotorLow]"
  by (simp add: pulseMotor_3 delay_def emit_def)

lemma clock_emit [simp]: "clock (emit e s) = clock s"
  by (simp add: emit_def)

lemma trace_emit [simp]: "trace (emit e s) = trace s @ [e]"
  by (simp add: emit_def)

lemma clock_delay [simp]: "clock (delay d s) = clock s + d"
  by (simp add: delay_def)

lemma array_ok_simps [simp]:
  "array_ok (emit e s) = array_ok s"
  "array_ok (delay d s) = array_ok s"
  "array_ok (flushed s) = array_ok s"
  "array_ok (updateStatus st s) = array_ok s"
  "array_ok (offLED s) = array_ok s"
  "array_ok (breatheLED s) = array_ok s"
  "array_ok (pulseMotor n s) = array_ok s"
  "array_ok (startSession s) = array_ok s"
  "array_ok (plans_stored doc s) = array_ok s"
  "array_ok (total_stored v s) = array_ok s"
  "array_ok (onConnect s) = array_ok s"
  "array_ok (onDisconnect s) = array_ok s"
  by (simp_all add: array_ok_def)

lemma session_log_simps [simp]:
  "session_log (emit e s) = session_log s"
  "session_log (delay d s) = session_log s"
  "session_log (flushed s) = session_log s"
  "session_log (updateStatus st s) = session_log s"
  "session_log (offLED s) = session_log s"
  "session_log (breatheLED s) = session_log s"
  "session_log (pulseMotor n s) = session_log s"
  "session_log (startSession s) = session_log s"
  "session_log (plans_stored doc s) = session_log s"
  "session_log (total_stored v s) = session_log s"
  "session_log (onConnect s) = session_log s"
  "session_log (onDisconnect s) = session_log s"
  by (simp_all add: session_log_def)

lemma array_ok_update_simps [simp]:
  "array_ok (s\<lparr>currentState := a1\<rparr>) = array_ok s"
  "array_ok (s\<lparr>sessionDuration := a3\<rparr>) = array_ok s"
  "array_ok (s\<lparr>totalSeconds := a4\<rparr>) = array_ok s"
  "array_ok (s\<lparr>goalReached := a6\<rparr>) = array_ok s"
  "array_ok (s\<lparr>lastSqueezeState := a7\<rparr>) = array_ok s"
  "array_ok (s\<lparr>squeezeStartTime := a8\<rparr>) = array_ok s"
  "array_ok (s\<lparr>leds0 := a9\<rparr>) = array_ok s"
  "array_ok (s\<lparr>settlingStart := a10\<rparr>) = array_ok s"
  "array_ok (s\<lparr>hoursChar := a11\<rparr>) = array_ok s"
  "array_ok (s\<lparr>sessionsChar := a12\<rparr>) = array_ok s"
  "array_ok (s\<lparr>clock := a13\<rparr>) = array_ok s"
  by (simp_all add: array_ok_def)

lemma session_log_update_simps [simp]:
  "session_log (s\<lparr>currentState := a1\<rparr>) = session_log s"
  "session_log (s\<lparr>sessionDuration := a3\<rparr>) = session_log s"
  "session_log (s\<lparr>totalSeconds := a4\<rparr>) = session_log s"
  "session_log (s\<lparr>goalReached := a6\<rparr>) = session_log s"
  "session_log (s\<lparr>lastSqueezeState := a7\<rparr>) = session_log s"
  "session_log (s\<lparr>squeezeStartTime := a8\<rparr>) = session_log s"
  "session_log (s\<lparr>leds0 := a9\<rparr>) = session_log s"
  "session_log (s\<lparr>settlingStart := a10\<rparr>) = session_log s"
  "session_log (s\<lparr>hoursChar := a11\<rparr>) = session_log s"
  "session_log (s\<lparr>sessionsChar := a12\<rparr>) = session_log s"
  "session_log (s\<lparr>clock := a13\<rparr>) = session_log s"
  by (simp_all add: session_log_def)

lemma sessions_json_loop_total:
  "array_ok s \<Longrightarrow> 0 \<le> i \<Longrightarrow> \<exists>arr'. sessions_json_loop i s arr = Inr arr'"
proof (induction i s arr rule: sessions_json_loop.induct)
  case (1 i s arr)
  show ?case
  proof (cases "i < pendingSessionCount s")
    case False
    then show ?thesis by (subst sessions_json_loop.simps) simp
  next
    case True
    then have g: "arr_get (pendingSessions s) i = Inr (pendingSessions s ! nat i)"
      using "1.prems" by (simp add: arr_get_ok array_ok_iff)
    have "\<exists>arr'. sessions_json_loop (i + 1) s
            (if \<not> synced (pendingSessions s ! nat i) then arr @ [session_json (pendingSessions s ! nat i)] else arr)
            = Inr arr'"
      using True g "1.prems" by (intro "1.IH") simp_all
    then show ?thesis using True g by (subst sessions_json_loop.simps) simp
  qed
qed

lemma updateBLE_eq:
  "array_ok s \<Longrightarrow> \<exists>j. updateBLE s = Inr (s\<lparr>hoursChar := totalSeconds s, sessionsChar := j\<rparr>)"
  using sessions_json_loop_total [of "s\<lparr>hoursChar := totalSeconds s\<rparr>" 0 "[]"]
  by (auto simp add: updateBLE_def getPendingSessionsJSON_def Let_def)

lemma endSession_short:
  "clock s - sessionStartTime s < 10000 \<Longrightarrow>
   endSession s =
     Inr (emit (LedShow White)
       ((updateStatus SETTLING
          ((pulseMotor 3 ((emit (Serial ''Ending session'') s)
             \<lparr>sessionDuration := clock s - sessionStartTime s\<rparr>))\<lparr>currentState := SETTLING\<rparr>))
        \<lparr>leds0 := White\<rparr>))"
  by (simp add: endSession_def Let_def millis_def not_le [symmetric])

lemma endSession_long:
  assumes "array_ok s" and "10000 \<le> clock s - sessionStartTime s"
  shows "\<exists>s3. addPendingSession (sessionStartTime s div 1000) (clock s div 1000)
                 ((clock s - sessionStartTime s) div 1000)
                 ((emit (Serial ''Ending session'') s)\<lparr>sessionDuration := clock s - sessionStartTime s\<rparr>)
               = Inr s3 \<and>
          endSession s =
            Inr (emit (LedShow White)
              ((updateStatus SETTLING
                 ((pulseMotor 3 (flushed
                    (s3\<lparr>totalSeconds := totalSeconds s3 + (clock s - sessionStartTime s) div 1000\<rparr>)))
                  \<lparr>currentState := SETTLING\<rparr>))
               \<lparr>leds0 := White\<rparr>))"
proof -
  let ?s2 = "(emit (Serial ''Ending session'') s)\<lparr>sessionDuration := clock s - sessionStartTime s\<rparr>"
  have ok: "array_ok ?s2" using assms(1) by simp
  from addPendingSession_eq [OF ok]
  obtain s3 where s3: "addPendingSession (sessionStartTime s div 1000) (clock s div 1000)
                 ((clock s - sessionStartTime s) div 1000) ?s2 = Inr s3" by blast
  have "pendingSessionCount s3 \<le> 50"
    using addPendingSession_log(2) [OF ok s3] by (simp add: array_ok_iff)
  then show ?thesis using s3 assms(2) by (simp add: endSession_def Let_def millis_def saveToFlash_ok)
qed

lemma endSession_in_bounds: "array_ok s \<Longrightarrow> in_bounds (endSession s)"
proof (cases "10000 \<le> clock s - sessionStartTime s")
  case True
  assume ok: "array_ok s"
  from endSession_long [OF ok True] obtain s3 where
    s3: "addPendingSession (sessionStartTime s div 1000) (clock s div 1000)
                 ((clock s - sessionStartTime s) div 1000)
                 ((emit (Serial ''Ending session'') s)\<lparr>sessionDuration := clock s - sessionStartTime s\<rparr>)
               = Inr s3"
    and e: "endSession s =
            Inr (emit (LedShow White)
              ((updateStatus SETTLING
                 ((pulseMotor 3 (flushed
                    (s3\<lparr>totalSeconds := totalSeconds s3 + (clock s - sessionStartTime s) div 1000\<rparr>)))
                  \<lparr>currentState := SETTLING\<rparr>))
               \<lparr>leds0 := White\<rparr>))" by blast
  have "array_ok s3" using addPendingSession_log(2) [OF _ s3] ok by simp
  then show ?thesis unfolding e by simp
next
  case False
  assume ok: "array_ok s"
  from False have "clock s - sessionStartTime s < 10000" by simp
  from endSession_short [OF this] ok show ?thesis by simp
qed

lemma completeWithGoal_in_bounds: "array_ok s \<Longrightarrow> in_bounds (completeWithGoal s)"
  by (simp add: completeWithGoal_def Let_def endSession_in_bounds)

lemma squeezeAction_in_bounds: "array_ok s \<Longrightarrow> in_bounds (squeezeAction s)"
  by (cases "currentState s") (simp_all add: squeezeAction_def endSession_in_bounds)

lemma handleTouch_in_bounds: "array_ok s \<Longrightarrow> in_bounds (handleTouch l r s)"
  unfolding handleTouch_def Let_def
  by (intro in_bounds_bind) (auto intro!: in_bounds_bind squeezeAction_in_bounds)

lemma updateLED_in_bounds: "array_ok s \<Longrightarrow> in_bounds (updateLED s)"
  by (cases "currentState s") (simp_all add: updateLED_def Let_def completeWithGoal_in_bounds)

lemma updateBLE_in_bounds: "array_ok s \<Longrightarrow> in_bounds (updateBLE s)"
  using updateBLE_eq [of s] by auto

lemma loop_in_bounds: "array_ok s \<Longrightarrow> in_bounds (loop l r s)"
  unfolding loop_def
  by (intro in_bounds_bind handleTouch_in_bounds updateLED_in_bounds updateBLE_in_bounds) simp_all

lemma compact_loop_in_bounds: "array_ok s \<Longrightarrow> in_bounds (compact_loop 0 0 s)"
  using compact_loop_0 [of s] by auto

lemma saveToFlash_in_bounds: "array_ok s \<Longrightarrow> in_bounds (saveToFlash s)"
  by (simp add: saveToFlash_ok array_ok_iff)

lemma storePlans_ok: "array_ok s \<Longrightarrow> storePlans doc s = Inr (plans_stored doc s)"
  by (cases doc) (simp_all add: storePlans_def plans_stored_def Let_def saveToFlash_ok array_ok_iff)

lemma storeTotalHours_ok: "array_ok s \<Longrightarrow> storeTotalHours v s = Inr (total_stored v s)"
  by (simp add: storeTotalHours_def total_stored_def saveToFlash_ok array_ok_iff)

lemma markSessionsSynced_in_bounds: "array_ok s \<Longrightarrow> in_bounds (markSessionsSynced doc s)"
  unfolding markSessionsSynced_def
  by (cases doc)
    (auto intro!: in_bounds_bind mark_all_in_bounds compact_loop_in_bounds saveToFlash_in_bounds)

lemma step_in_bounds: "array_ok s \<Longrightarrow> in_bounds (step x s)"
  by (cases x)
    (simp_all add: loop_in_bounds PlansCallback_onWrite_def AckCallback_onWrite_def
      TotalCallback_onWrite_def markSessionsSynced_in_bounds storePlans_ok storeTotalHours_ok)

lemma run_in_bounds: "array_ok s \<Longrightarrow> in_bounds (run xs s)"
proof (induction xs arbitrary: s)
  case Nil
  then show ?case by simp
next
  case (Cons x xs)
  from step_in_bounds [OF Cons.prems, of x] Cons.IH show ?case
    by (cases "step x s") simp_all
qed

lemma array_ok_loadFromFlash: "length (pendingSessions s) = 50 \<Longrightarrow> array_ok (loadFromFlash s)"
  by (auto simp add: loadFromFlash_def Let_def array_ok_def MAX_PENDING_SESSIONS_def)

lemma array_ok_setup_device: "array_ok (setup_device (power_on ft fc fs rnd))"
proof -
  have "length (pendingSessions (power_on ft fc fs rnd)) = 50"
    by (simp add: power_on_def MAX_PENDING_SESSIONS_def)
  then show ?thesis by (simp add: setup_device_def Let_def array_ok_loadFromFlash)
qed

lemma loadFromFlash_invalid:
  "flash_pendingCnt s < 0 \<or> flash_pendingCnt s > 50 \<Longrightarrow>
   pendingSessionCount (loadFromFlash s) = 0 \<and> pendingSessions (loadFromFlash s) = pendingSessions s"
  by (auto simp add: loadFromFlash_def Let_def MAX_PENDING_SESSIONS_def)

lemma handleTouch_confirmed:
  "handleTouch l r s =
     (if squeezeConfirmed l r s
      then bind_f (squeezeAction s)
             (\<lambda>s2. Inr (s2\<lparr>squeezeStartTime := millis s2 + 1000, lastSqueezeState := True\<rparr>))
      else Inr ((if l \<and> r \<and> \<not> lastSqueezeState s then s\<lparr>squeezeStartTime := millis s\<rparr> else s)
                  \<lparr>lastSqueezeState := l \<and> r\<rparr>))"
  by (cases "squeezeAction s") (auto simp add: handleTouch_def squeezeConfirmed_def Let_def millis_def)

lemma nat_div_diff_le: "(a::nat) \<le> b \<Longrightarrow> (b - a) div 1000 \<le> b div 1000 - a div 1000"
proof -
  assume ab: "a \<le> b"
  define q where "q = a div 1000"
  have "1000 * q \<le> a" by (simp add: q_def)
  then have "b - a \<le> b - 1000 * q" by simp
  then have "(b - a) div 1000 \<le> (b - 1000 * q) div 1000" by (rule div_le_mono)
  also have "\<dots> = b div 1000 - q" by simp
  finally show ?thesis by (simp add: q_def)
qed

lemma nat_div_add_le: "((x::nat) + y) div 1000 \<le> x div 1000 + y div 1000 + 1"
proof -
  have "x mod 1000 < 1000" "y mod 1000 < 1000" by simp_all
  then have "x mod 1000 + y mod 1000 < 2 * 1000" by linarith
  then have "(x mod 1000 + y mod 1000) div 1000 < 2" by (rule less_mult_imp_div_less)
  then show ?thesis by (subst div_add1_eq) linarith
qed

lemma nat_div_diff_ge: "(a::nat) \<le> b \<Longrightarrow> b div 1000 - a div 1000 \<le> (b - a) div 1000 + 1"
proof -
  assume ab: "a \<le> b"
  have e: "(b - a) + a = b" using ab by simp
  from nat_div_add_le [of "b - a" a] have "b div 1000 \<le> (b - a) div 1000 + a div 1000 + 1"
    unfolding e .
  then show ?thesis by simp
qed

lemma unat_div_1000: "unat ((z :: u32) div 1000) = unat z div 1000"
  by (simp add: unat_div)

lemma div_1000_bounds:
  fixes x y :: u32
  assumes "x \<le> y"
  shows "x div 1000 \<le> y div 1000"
    and "(y - x) div 1000 \<le> y div 1000 - x div 1000"
    and "y div 1000 - x div 1000 \<le> (y - x) div 1000 + 1"
proof -
  have xy: "unat x \<le> unat y" using assms by (simp add: word_le_nat_alt)
  have n1: "(unat y - unat x) div 1000 \<le> unat y div 1000 - unat x div 1000"
    by (rule nat_div_diff_le [OF xy])
  have n2: "unat y div 1000 - unat x div 1000 \<le> (unat y - unat x) div 1000 + 1"
    by (rule nat_div_diff_ge [OF xy])
  note d = unat_div_1000
  have s: "unat (y - x) = unat y - unat x" using assms by (simp add: unat_sub)
  show le: "x div 1000 \<le> y div 1000"
    unfolding word_le_nat_alt d using xy by (rule div_le_mono)
  have s2: "unat (y div 1000 - x div 1000) = unat y div 1000 - unat x div 1000"
    using le by (simp only: unat_sub d)
  show "(y - x) div 1000 \<le> y div 1000 - x div 1000"
    unfolding word_le_nat_alt d s s2 by (rule n1)
  have "unat (y - x) < 2 ^ 32" using unsigned_less [of "y - x"] by simp
  then have small: "unat ((y - x) div 1000) + 1 < 2 ^ 32"
    unfolding d by simp
  have p1: "unat ((y - x) div 1000 + 1) = unat ((y - x) div 1000) + 1"
    using small by (simp add: unat_word_ariths)
  show "y div 1000 - x div 1000 \<le> (y - x) div 1000 + 1"
    unfolding word_le_nat_alt p1 unfolding d s s2 by (rule n2)
qed

lemma times_inserted:
  "map (\<lambda>r. (startTime r, endTime r, durationSeconds r)) (inserted xs rs) = xs"
  by (induction xs rs rule: inserted.induct) simp_all

lemma array_ok_power_on: "array_ok (power_on ft fc fs rnd)"
  by (simp add: array_ok_def power_on_def MAX_PENDING_SESSIONS_def)


lemma take_36_uuid_format [simp]: "take 36 (uuid_format r1 r2 r3 r4) = uuid_format r1 r2 r3 r4"
  unfolding uuid_format_def by (simp only: take_take min.idem)

lemma take_36_uuid_of_rng [simp]: "take 36 (uuid_of_rng rs) = uuid_of_rng rs"
  unfolding uuid_of_rng_def by (rule take_36_uuid_format)

lemma uuid_of_rng_4 [simp]: "uuid_of_rng (a # b # c # d # rest) = uuid_format a b c d"
  by (simp add: uuid_of_rng_def)

lemma addPendingSession_frame:
  assumes "array_ok s" and "addPendingSession a b c s = Inr s'"
  shows "currentState s' = currentState s"
    and "sessionStartTime s' = sessionStartTime s"
    and "sessionDuration s' = sessionDuration s"
    and "totalSeconds s' = totalSeconds s"
    and "goalDuration s' = goalDuration s"
    and "goalReached s' = goalReached s"
    and "lastSqueezeState s' = lastSqueezeState s"
    and "squeezeStartTime s' = squeezeStartTime s"
    and "leds0 s' = leds0 s"
    and "deviceConnected s' = deviceConnected s"
    and "todaysPlan s' = todaysPlan s"
    and "settlingStart s' = settlingStart s"
    and "statusChar s' = statusChar s"
    and "hoursChar s' = hoursChar s"
    and "sessionsChar s' = sessionsChar s"
    and "clock s' = clock s"
  using assms(2) unfolding addPendingSession_eq [OF assms(1)] by auto

lemma statusChar_updateStatus [simp]: "statusChar (updateStatus st s) = [state_code st]"
  by (simp add: updateStatus_def Let_def)

lemma endSession_result:
  assumes "array_ok s"
  shows "\<exists>s'. endSession s = Inr s' \<and> array_ok s' \<and> currentState s' = SETTLING \<and>
              statusChar s' = [state_code SETTLING] \<and> goalReached s' = goalReached s \<and>
              todaysPlan s' = todaysPlan s"
proof (cases "10000 \<le> clock s - sessionStartTime s")
  case True
  let ?s2 = "(emit (Serial ''Ending session'') s)\<lparr>sessionDuration := clock s - sessionStartTime s\<rparr>"
  from endSession_long [OF assms True] obtain s3 where
    s3: "addPendingSession (sessionStartTime s div 1000) (clock s div 1000)
           ((clock s - sessionStartTime s) div 1000) ?s2 = Inr s3"
    and e: "endSession s =
            Inr (emit (LedShow White)
              ((updateStatus SETTLING
                 ((pulseMotor 3 (flushed
                    (s3\<lparr>totalSeconds := totalSeconds s3 + (clock s - sessionStartTime s) div 1000\<rparr>)))
                  \<lparr>currentState := SETTLING\<rparr>))
               \<lparr>leds0 := White\<rparr>))" by blast
  have ok: "array_ok ?s2" using assms by simp
  note f = addPendingSession_frame [OF ok s3] addPendingSession_log(2) [OF ok s3]
  show ?thesis unfolding e by (simp add: f)
next
  case False
  then have "clock s - sessionStartTime s < 10000" by simp
  from endSession_short [OF this] assms show ?thesis
    by simp
qed

lemma updateLED_active:
  "currentState s = ACTIVE \<Longrightarrow>
   updateLED s = (if goalDue s then completeWithGoal (breatheLED s) else Inr (breatheLED s))"
  by (auto simp add: updateLED_def goalDue_def Let_def millis_def)

lemma squeezeAction_active: "currentState s = ACTIVE \<Longrightarrow> squeezeAction s = endSession s"
  by (simp add: squeezeAction_def)

lemma goalDue_plans_stored [simp]: "goalDue (plans_stored doc s) = goalDue s"
  by (simp add: goalDue_def millis_def)

lemma startSession_goal:
  "goalDuration (startSession s0) =
     (if active (todaysPlan s0) \<and> durationMinutes (todaysPlan s0) > 0
      then ucast (durationMinutes (todaysPlan s0)) * 60 * 1000 else 0)"
  "currentState (startSession s0) = ACTIVE"
  "goalReached (startSession s0) = False"
  "sessionStartTime (startSession s0) = clock s0"
  by (simp_all add: startSession_def Let_def millis_def)

lemma goal_seconds:
  fixes e :: u32
  assumes "60000 \<le> e" and "e \<le> e + 850"
  shows "10000 \<le> e + 850" and "((e + 850) div 1000 = 60) = (e < 60150)"
proof -
  have lo: "60000 \<le> unat e" using assms(1) by (simp add: word_le_nat_alt)
  have u: "unat (e + 850) = unat e + 850"
    using assms(2) unat_plus_simple [of e 850] by simp
  show "10000 \<le> e + 850" using lo by (simp add: word_le_nat_alt u)
  have d: "unat ((e + 850) div 1000) = (unat e + 850) div 1000" by (simp add: unat_div u)
  show "((e + 850) div 1000 = 60) = (e < 60150)"
  proof
    assume "(e + 850) div 1000 = 60"
    then have "(unat e + 850) div 1000 = 60" using d by simp
    then have "unat e < 60150" by linarith
    then show "e < 60150" by (simp add: word_less_nat_alt)
  next
    assume "e < 60150"
    then have hi: "unat e < 60150" by (simp add: word_less_nat_alt)
    have "(unat e + 850) div 1000 = 60" using lo hi by linarith
    then have "unat ((e + 850) div 1000) = unat (60 :: u32)" using d by simp
    then show "(e + 850) div 1000 = 60" by (rule word_unat_eq_iff [THEN iffD2])
  qed
qed

lemma goal_wrapped:
  fixes e :: u32
  assumes "\<not> e \<le> e + 850"
  shows "e + 850 < 10000"
  using assms by uint_arith


lemma todaysPlan_plans_stored:
  "todaysPlan (plans_stored None s) = todaysPlan s"
  "as_array d = [] \<Longrightarrow> todaysPlan (plans_stored (Some d) s) = (todaysPlan s)\<lparr>active := False\<rparr>"
  "as_array d = x # xs \<Longrightarrow> todaysPlan (plans_stored (Some d) s) = uploaded_plan x"
  by (simp_all add: plans_stored_def uploaded_plan_def Let_def flushed_def emit_def)



lemmas eval_defs = boot_def setup_device_def power_on_def loadFromFlash_def loop_def handleTouch_def
  updateLED_def updateBLE_def getPendingSessionsJSON_def sessions_json_loop.simps squeezeAction_def
  startSession_def endSession_def completeWithGoal_def pulseMotor_def pulseMotor_loop.simps
  updateStatus_def offLED_def breatheLED_def emit_def delay_def millis_def Let_def observe_def
  MAX_PENDING_SESSIONS_def SQUEEZE_HOLD_MS_def MOTOR_PULSE_MS_def MOTOR_PAUSE_MS_def COMPLETION_GLOW_MS_def
  flushed_def saveToFlash_def storePlans_def storeTotalHours_def TotalCallback_onWrite_def
  zero_session_def squeezeConfirmed_def status_view_def settling_view_def notifications_def
  onConnect_def onDisconnect_def PlansCallback_onWrite_def plans_stored_def as_array_def as_object_def
  member_def int_or_def bool_or_def plan_1min_def plan_30min_enforced_def
  addPendingSession_def shift_loop.simps generateUUID_def esp_random_def arr_get_def arr_set_def
  log_times_def session_log_def session_json_def

lemma replicate_50_Cons: "replicate 50 x = x # replicate 49 x"
proof -
  have "(50::nat) = Suc 49" by simp
  then show ?thesis by (simp only: replicate_Suc)
qed

lemma array_ok_boot: "array_ok boot"
  unfolding boot_def by (rule array_ok_setup_device)

lemma boot_fields:
  "clock boot = 1000" "todaysPlan boot = \<lparr>date = 0, durationMinutes = 0, enforceGoal = False, active = False\<rparr>"
  "totalSeconds boot = 0" "session_log boot = []"
  by (simp_all add: eval_defs)

lemma todaysPlan_upload:
  "todaysPlan (plans_stored (Some plan_1min) s) =
     \<lparr>date = 20261030, durationMinutes = 1, enforceGoal = False, active = True\<rparr>"
  "todaysPlan (plans_stored (Some plan_1min_enforced) s) =
     \<lparr>date = 20261030, durationMinutes = 1, enforceGoal = True, active = True\<rparr>"
  "todaysPlan (plans_stored (Some plan_30min_enforced) s) =
     \<lparr>date = 20261030, durationMinutes = 30, enforceGoal = True, active = True\<rparr>"
  by (simp_all add: plans_stored_def plan_1min_def plan_1min_enforced_def plan_30min_enforced_def
      as_array_def as_object_def member_def int_or_def bool_or_def Let_def flushed_def emit_def)

lemma mid_session_fields:
  "array_ok (mid_session p now)"
  "currentState (mid_session p now) = ACTIVE"
  "goalReached (mid_session p now) = False"
  "sessionStartTime (mid_session p now) = 1000"
  "clock (mid_session p now) = now"
  "todaysPlan (mid_session p now) = todaysPlan (plans_stored (Some p) boot)"
  "goalDuration (mid_session p now) = goalDuration (startSession (plans_stored (Some p) boot))"
  by (simp_all add: mid_session_def array_ok_boot startSession_goal boot_fields)

lemma plans_stored_mid_session:
  assumes "array_ok s" and "currentState s = ACTIVE"
  shows "goalDue ((plans_stored doc s)\<lparr>clock := now\<rparr>) = goalDue (s\<lparr>clock := now\<rparr>) \<and>
         (\<not> goalDue (s\<lparr>clock := now\<rparr>) \<longrightarrow>
            updateLED ((plans_stored doc s)\<lparr>clock := now\<rparr>)
              = Inr (breatheLED ((plans_stored doc s)\<lparr>clock := now\<rparr>))) \<and>
         (goalDue (s\<lparr>clock := now\<rparr>) \<longrightarrow>
            (\<exists>t. updateLED ((plans_stored doc s)\<lparr>clock := now\<rparr>) = Inr t \<and> goalReached t \<and>
                 currentState t =
                   (if enforceGoal (todaysPlan (plans_stored doc s)) then SETTLING else ACTIVE)))"
proof -
  let ?p = "(plans_stored doc s)\<lparr>clock := now\<rparr>"
  have act: "currentState ?p = ACTIVE" using assms(2) by simp
  have gd: "goalDue ?p = goalDue (s\<lparr>clock := now\<rparr>)" by (simp add: goalDue_def millis_def)
  have u: "updateLED ?p = (if goalDue (s\<lparr>clock := now\<rparr>) then completeWithGoal (breatheLED ?p)
                           else Inr (breatheLED ?p))"
    using updateLED_active [OF act] unfolding gd .
  let ?g = "pulseMotor 3 ((emit (Serial ''Goal reached!'') (breatheLED ?p))\<lparr>goalReached := True\<rparr>)"
  have c: "completeWithGoal (breatheLED ?p)
           = (if enforceGoal (todaysPlan (plans_stored doc s)) then endSession ?g else Inr ?g)"
    by (simp add: completeWithGoal_def Let_def)
  have okg: "array_ok ?g" using assms(1) by simp
  have fire: "\<exists>t. updateLED ?p = Inr t \<and> goalReached t \<and>
                 currentState t = (if enforceGoal (todaysPlan (plans_stored doc s)) then SETTLING else ACTIVE)"
    if due: "goalDue (s\<lparr>clock := now\<rparr>)"
  proof (cases "enforceGoal (todaysPlan (plans_stored doc s))")
    case True
    from endSession_result [OF okg] obtain t where
      "endSession ?g = Inr t" "currentState t = SETTLING" "goalReached t = goalReached ?g" by blast
    then show ?thesis using True due by (simp add: u c)
  next
    case False
    then show ?thesis using due act by (simp add: u c)
  qed
  show ?thesis using u gd fire by simp
qed

section \<open>Squeezes and settling, for every state\<close>

text \<open>
  After a confirmed squeeze, every iteration of the loop that comes within the next
  second with both pads still pressed confirms the squeeze again: the deadline stored
  in \<^verbatim>\<open>squeezeStartTime\<close> lies ahead of \<^verbatim>\<open>millis()\<close>, and the unsigned difference
  wraps around. A squeeze in the settling phase leaves the Status characteristic and
  \<^verbatim>\<open>settlingStart\<close> as they are, and a settling phase that begins with a
  \<^verbatim>\<open>settlingStart\<close> left over from 30 s ago or more ends at its first
  \<^verbatim>\<open>updateLED\<close>.
\<close>

lemma wrap_ge_200:
  fixes t d :: u32
  assumes "d < 1000"
  shows "200 \<le> (t + d) - (t + 1000)"
proof -
  have e: "(t + d) - (t + 1000) = d - 1000" by simp
  have "200 \<le> d - 1000" using assms by uint_arith auto
  then show ?thesis by (simp only: e)
qed

lemma confirmed_again_within_a_second:
  assumes "squeezeConfirmed True True s" and "handleTouch True True s = Inr s1" and "d < 1000"
  shows "squeezeConfirmed True True (s1\<lparr>clock := clock s1 + d\<rparr>)"
proof -
  from assms(1,2) obtain s2 where
    s1: "s1 = s2\<lparr>squeezeStartTime := millis s2 + 1000, lastSqueezeState := True\<rparr>"
    by (cases "squeezeAction s") (auto simp add: handleTouch_confirmed)
  show ?thesis
    using wrap_ge_200 [OF assms(3), of "clock s2"]
    by (simp add: s1 squeezeConfirmed_def millis_def SQUEEZE_HOLD_MS_def)
qed

lemma early_ack_leaves_status:
  assumes "currentState s = SETTLING"
  shows "squeezeAction s = Inr (offLED (s\<lparr>currentState := IDLE\<rparr>))"
    and "statusChar (offLED (s\<lparr>currentState := IDLE\<rparr>)) = statusChar s"
    and "notifications (offLED (s\<lparr>currentState := IDLE\<rparr>)) = notifications s"
    and "settlingStart (offLED (s\<lparr>currentState := IDLE\<rparr>)) = settlingStart s"
  using assms by (simp_all add: squeezeAction_def notifications_def offLED_def emit_def)

lemma stale_settlingStart_ends_settling:
  assumes "currentState s = SETTLING" and "settlingStart s \<noteq> 0"
    and "COMPLETION_GLOW_MS \<le> millis s - settlingStart s"
  shows "\<exists>s'. updateLED s = Inr s' \<and> currentState s' = IDLE"
  using assms by (simp add: updateLED_def Let_def not_less [symmetric])

section \<open>C1: one squeeze is confirmed again and again\<close>

text \<open>
  C1 does not hold of the firmware. After a confirmed squeeze \<^verbatim>\<open>handleTouch\<close> stores
  \<^verbatim>\<open>millis() + 1000\<close> in \<^verbatim>\<open>squeezeStartTime\<close> ``to prevent repeat triggers'', but
  the next iteration computes \<^verbatim>\<open>millis() - squeezeStartTime\<close> in \<^verbatim>\<open>uint32_t\<close>:
  the difference wraps around to a value near \<open>2 ^ 32\<close>, which is at least 200. Here
  both pads are held from 2000 ms to 3320 ms without a release, in four iterations of
  the loop at the times the blocking calls allow: the squeeze is confirmed at 2200, at
  2460 and at 3320, and the one hold starts a session, ends it and acknowledges it.
\<close>

theorem squeeze_refires_in_one_hold:
  "confirmed_ticks
     [Tick True True 2000, Tick True True 2200, Tick True True 2460, Tick True True 3320] boot
     = [2200, 2460, 3320] \<and>
   observe currentState (run [Tick True True 2000, Tick True True 2200] boot) = Inr ACTIVE \<and>
   observe currentState (run [Tick True True 2000, Tick True True 2200, Tick True True 2460] boot)
     = Inr SETTLING \<and>
   observe currentState
     (run [Tick True True 2000, Tick True True 2200, Tick True True 2460, Tick True True 3320] boot)
     = Inr IDLE"
  by (simp add: eval_defs)

section \<open>C2: the session log is bounded\<close>

text \<open>
  C2. The log never holds more than 50 records. From any state that satisfies the array
  invariant, \<open>50 + k\<close> calls of \<^verbatim>\<open>addPendingSession\<close> all return, and leave exactly 50
  stored records: the last 50 records written, in the order they were written (\<open>inserted\<close>
  lists the records written, \<open>log_times\<close> their start, end and duration). And each call
  made at capacity drops the record at index 0 and puts the new record at the tail.
\<close>

theorem capacity_invariant:
  assumes "array_ok s" and "length xs = 50 + k"
  shows "\<exists>s'. appendAll xs s = Inr s' \<and> pendingSessionCount s' = 50 \<and>
              length (session_log s') = 50 \<and>
              session_log s' = drop k (inserted xs (rng s)) \<and>
              log_times s' = drop k xs \<and>
              (\<forall>a b c s1. array_ok s1 \<and> pendingSessionCount s1 = 50 \<longrightarrow>
                 (\<exists>s2. addPendingSession a b c s1 = Inr s2 \<and>
                       session_log s2 = tl (session_log s1) @ [new_record a b c s1]))"
proof -
  from appendAll_log [OF assms(1), of xs] obtain s' where s': "appendAll xs s = Inr s'" "array_ok s'"
    "session_log s' = drop (length (session_log s @ inserted xs (rng s)) - 50)
                           (session_log s @ inserted xs (rng s))" by blast
  have log: "session_log s' = drop k (inserted xs (rng s))"
    unfolding s'(3) using assms(2) by simp
  then have len: "length (session_log s') = 50" using assms(2) by simp
  then have cnt: "pendingSessionCount s' = 50" using length_session_log [OF s'(2)] by simp
  have one: "\<exists>s2. addPendingSession a b c s1 = Inr s2 \<and>
                session_log s2 = tl (session_log s1) @ [new_record a b c s1]"
    if "array_ok s1" "pendingSessionCount s1 = 50" for a b c s1
  proof -
    from addPendingSession_eq [OF that(1), of a b c]
    obtain s2 where s2: "addPendingSession a b c s1 = Inr s2" by blast
    from addPendingSession_log(1) [OF that(1) s2] that(2) s2 show ?thesis by simp
  qed
  have times: "log_times s' = drop k xs"
    by (simp add: log_times_def log drop_map [symmetric] times_inserted)
  show ?thesis using s'(1) log len cnt one times by blast
qed

theorem capacity_invariant_witness:
  "\<exists>s'. appendAll (map (\<lambda>n. (of_nat n, of_nat n + 15, 15)) [0..<52]) (power_on 0 0 [] []) = Inr s' \<and>
        pendingSessionCount s' = 50 \<and>
        log_times s' = drop 2 (map (\<lambda>n. (of_nat n, of_nat n + 15, 15)) [0..<52])"
proof -
  have h: "length (map (\<lambda>n. (of_nat n :: u32, of_nat n + 15 :: u32, 15 :: u32)) [0..<52]) = 50 + 2"
    by simp
  from capacity_invariant [OF array_ok_power_on h] show ?thesis by blast
qed

section \<open>C3: the recorded duration\<close>

text \<open>
  C3, as amended. \<^verbatim>\<open>endSession\<close> records a session that lasted at least 10000 ms.
  The record holds the start and the end instants divided by 1000, and, computed on its
  own, the difference of the two instants in milliseconds divided by 1000. When
  \<^verbatim>\<open>millis()\<close> has not wrapped around since the start, the end time is not before the
  start time and the duration is the end time minus the start time, or one second less.
\<close>

theorem recorded_duration:
  assumes "array_ok s" and "10000 \<le> clock s - sessionStartTime s"
  shows "\<exists>s'. endSession s = Inr s' \<and> session_log s' \<noteq> [] \<and>
           startTime (last (session_log s')) = sessionStartTime s div 1000 \<and>
           endTime (last (session_log s')) = clock s div 1000 \<and>
           durationSeconds (last (session_log s')) = (clock s - sessionStartTime s) div 1000 \<and>
           (sessionStartTime s \<le> clock s \<longrightarrow>
              startTime (last (session_log s')) \<le> endTime (last (session_log s')) \<and>
              durationSeconds (last (session_log s'))
                \<le> endTime (last (session_log s')) - startTime (last (session_log s')) \<and>
              endTime (last (session_log s')) - startTime (last (session_log s'))
                \<le> durationSeconds (last (session_log s')) + 1)"
proof -
  let ?s2 = "(emit (Serial ''Ending session'') s)\<lparr>sessionDuration := clock s - sessionStartTime s\<rparr>"
  let ?a = "sessionStartTime s div 1000" and ?b = "clock s div 1000"
    and ?c = "(clock s - sessionStartTime s) div 1000"
  from endSession_long [OF assms] obtain s3 where
    s3: "addPendingSession ?a ?b ?c ?s2 = Inr s3"
    and e: "endSession s =
            Inr (emit (LedShow White)
              ((updateStatus SETTLING
                 ((pulseMotor 3 (flushed (s3\<lparr>totalSeconds := totalSeconds s3 + ?c\<rparr>)))
                  \<lparr>currentState := SETTLING\<rparr>))
               \<lparr>leds0 := White\<rparr>))" by blast
  have ok: "array_ok ?s2" using assms(1) by simp
  let ?s' = "emit (LedShow White)
              ((updateStatus SETTLING
                 ((pulseMotor 3 (flushed (s3\<lparr>totalSeconds := totalSeconds s3 + ?c\<rparr>)))
                  \<lparr>currentState := SETTLING\<rparr>))
               \<lparr>leds0 := White\<rparr>)"
  have l: "session_log ?s' = session_log s3" by simp
  have l3: "session_log s3 \<noteq> []" "last (session_log s3) = new_record ?a ?b ?c ?s2"
    using addPendingSession_log(1) [OF ok s3] by simp_all
  have f: "startTime (new_record ?a ?b ?c ?s2) = ?a" "endTime (new_record ?a ?b ?c ?s2) = ?b"
    "durationSeconds (new_record ?a ?b ?c ?s2) = ?c"
    by (simp_all add: new_record_def)
  have g: "startTime (last (session_log ?s')) = ?a" "endTime (last (session_log ?s')) = ?b"
    "durationSeconds (last (session_log ?s')) = ?c"
    unfolding l l3 f by (rule refl)+
  have ne: "session_log ?s' \<noteq> []" unfolding l by (rule l3(1))
  have b: "?a \<le> ?b \<and> ?c \<le> ?b - ?a \<and> ?b - ?a \<le> ?c + 1" if "sessionStartTime s \<le> clock s"
    using div_1000_bounds [OF that] by blast
  show ?thesis
  proof (intro exI conjI)
    show "endSession s = Inr ?s'" by (rule e)
    show "session_log ?s' \<noteq> []" by (rule ne)
    show "startTime (last (session_log ?s')) = ?a" by (rule g(1))
    show "endTime (last (session_log ?s')) = ?b" by (rule g(2))
    show "durationSeconds (last (session_log ?s')) = ?c" by (rule g(3))
    show "sessionStartTime s \<le> clock s \<longrightarrow>
              startTime (last (session_log ?s')) \<le> endTime (last (session_log ?s')) \<and>
              durationSeconds (last (session_log ?s'))
                \<le> endTime (last (session_log ?s')) - startTime (last (session_log ?s')) \<and>
              endTime (last (session_log ?s')) - startTime (last (session_log ?s'))
                \<le> durationSeconds (last (session_log ?s')) + 1"
      unfolding g using b by (rule impI)
  qed
qed

theorem recorded_duration_witness:
  "\<exists>s'. endSession session_11s = Inr s' \<and>
        startTime (last (session_log s')) = 1 \<and>
        endTime (last (session_log s')) = 13 \<and>
        durationSeconds (last (session_log s')) = 11"
proof -
  have ok: "array_ok session_11s"
    using array_ok_boot by (simp add: session_11s_def array_ok_def)
  have long: "10000 \<le> clock session_11s - sessionStartTime session_11s"
    by (simp add: session_11s_def)
  have v: "sessionStartTime session_11s div 1000 = 1" "clock session_11s div 1000 = 13"
    "(clock session_11s - sessionStartTime session_11s) div 1000 = 11"
    by (simp_all add: session_11s_def)
  from recorded_duration [OF ok long] show ?thesis
    unfolding v by blast
qed

text \<open>
  C3 as stated fails: a session from 1999 ms to 13000 ms is recorded with start time 1,
  end time 13 and duration 11.
\<close>

theorem duration_counterexample:
  "observe log_times
     (run [Tick True True 1799, Tick True True 1999, Tick False False 2300,
           Tick True True 12800, Tick True True 13000] boot)
     = Inr [(1, 13, 11)] \<and> (11 :: u32) \<noteq> 13 - 1"
  by (simp add: eval_defs replicate_50_Cons)

section \<open>C4: reaching the goal\<close>

text \<open>
  C4, as amended. A session started under an active plan of one minute has a goal of
  60000 ms. At the iteration of the loop that first sees 60 s or more elapsed, with
  \<^verbatim>\<open>enforceGoal\<close> set, \<^verbatim>\<open>updateLED\<close> does what a squeeze does in the active phase to
  the state with the goal marked reached and the three completion pulses (850 ms) played:
  it enters \<^verbatim>\<open>SETTLING\<close>, publishes that phase and records a session whose duration is
  the elapsed time seen plus 850 ms, in whole seconds, which is 60 exactly when the
  iteration comes less than 150 ms after the 60 s mark (when the sum passes the 32 bits
  of the clock, nothing is recorded). With \<^verbatim>\<open>enforceGoal\<close> clear it marks the goal
  reached and signals it by the line ``Goal reached!'' on the serial port and three
  motor pulses, and by nothing else: no notification goes to a client and the Status
  characteristic is not touched; it stays \<^verbatim>\<open>ACTIVE\<close>, records nothing, and every later
  call only animates the LED.
\<close>

theorem goal_enforcement:
  assumes "active (todaysPlan s0)" and "durationMinutes (todaysPlan s0) = 1"
    and "array_ok s" and "currentState s = ACTIVE" and "\<not> goalReached s"
    and "goalDuration s = goalDuration (startSession s0)"
    and "60000 \<le> millis s - sessionStartTime s"
  shows "goalDuration (startSession s0) = 60000 \<and>
    (enforceGoal (todaysPlan s) \<longrightarrow>
       updateLED s = squeezeAction (pulseMotor 3
                       ((emit (Serial ''Goal reached!'') (breatheLED s))\<lparr>goalReached := True\<rparr>)) \<and>
       (\<exists>s'. updateLED s = Inr s' \<and> currentState s' = SETTLING \<and>
             statusChar s' = [state_code SETTLING] \<and>
             (if millis s - sessionStartTime s \<le> millis s - sessionStartTime s + 850
              then session_log s' \<noteq> [] \<and>
                   durationSeconds (last (session_log s')) = (millis s - sessionStartTime s + 850) div 1000 \<and>
                   totalSeconds s' = totalSeconds s + (millis s - sessionStartTime s + 850) div 1000 \<and>
                   (durationSeconds (last (session_log s')) = 60) = (millis s - sessionStartTime s < 60150)
              else session_log s' = session_log s \<and> totalSeconds s' = totalSeconds s))) \<and>
    (\<not> enforceGoal (todaysPlan s) \<longrightarrow>
       (\<exists>s'. updateLED s = Inr s' \<and> currentState s' = ACTIVE \<and> goalReached s' \<and>
             trace s' = trace s @ [LedShow Breath, Serial ''Goal reached!'', MotorHigh, MotorLow,
                                   MotorHigh, MotorLow, MotorHigh, MotorLow] \<and>
             notifications s' = notifications s \<and> statusChar s' = statusChar s \<and>
             session_log s' = session_log s \<and> totalSeconds s' = totalSeconds s \<and>
             (\<forall>now. updateLED (s'\<lparr>clock := now\<rparr>) = Inr (breatheLED (s'\<lparr>clock := now\<rparr>)))))"
proof -
  have g0: "goalDuration (startSession s0) = 60000"
    using assms(1,2) by (simp add: startSession_goal)
  let ?e = "millis s - sessionStartTime s"
  let ?g = "pulseMotor 3 ((emit (Serial ''Goal reached!'') (breatheLED s))\<lparr>goalReached := True\<rparr>)"
  have due: "goalDue s"
    using assms(4,5,6,7) g0 by (simp add: goalDue_def)
  have u: "updateLED s = (if enforceGoal (todaysPlan s) then endSession ?g else Inr ?g)"
    using updateLED_active [OF assms(4)] due by (simp add: completeWithGoal_def Let_def)
  have actg: "currentState ?g = ACTIVE" using assms(4) by simp
  have okg: "array_ok ?g" using assms(3) by simp
  have el: "clock ?g - sessionStartTime ?g = ?e + 850" by (simp add: millis_def)
  have enforced: "\<exists>s'. endSession ?g = Inr s' \<and> currentState s' = SETTLING \<and>
             statusChar s' = [state_code SETTLING] \<and>
             (if ?e \<le> ?e + 850
              then session_log s' \<noteq> [] \<and>
                   durationSeconds (last (session_log s')) = (?e + 850) div 1000 \<and>
                   totalSeconds s' = totalSeconds s + (?e + 850) div 1000 \<and>
                   (durationSeconds (last (session_log s')) = 60) = (?e < 60150)
              else session_log s' = session_log s \<and> totalSeconds s' = totalSeconds s)"
  proof (cases "?e \<le> ?e + 850")
    case True
    note six = goal_seconds [OF assms(7) True]
    let ?s2 = "(emit (Serial ''Ending session'') ?g)\<lparr>sessionDuration := clock ?g - sessionStartTime ?g\<rparr>"
    have long: "10000 \<le> clock ?g - sessionStartTime ?g" unfolding el by (rule six(1))
    from endSession_long [OF okg long] obtain s3 where
      s3: "addPendingSession (sessionStartTime ?g div 1000) (clock ?g div 1000)
             ((clock ?g - sessionStartTime ?g) div 1000) ?s2 = Inr s3"
      and e: "endSession ?g =
            Inr (emit (LedShow White)
              ((updateStatus SETTLING
                 ((pulseMotor 3 (flushed
                    (s3\<lparr>totalSeconds := totalSeconds s3 + (clock ?g - sessionStartTime ?g) div 1000\<rparr>)))
                  \<lparr>currentState := SETTLING\<rparr>))
               \<lparr>leds0 := White\<rparr>))" by blast
    have ok2: "array_ok ?s2" using okg by simp
    note f = addPendingSession_frame [OF ok2 s3]
    have l3: "session_log s3 \<noteq> []"
      "last (session_log s3) = new_record (sessionStartTime ?g div 1000) (clock ?g div 1000)
           ((clock ?g - sessionStartTime ?g) div 1000) ?s2"
      using addPendingSession_log(1) [OF ok2 s3] by simp_all
    have d: "durationSeconds (last (session_log s3)) = (?e + 850) div 1000"
      unfolding l3(2) el by (simp add: new_record_def)
    have tot: "totalSeconds s3 + (clock ?g - sessionStartTime ?g) div 1000 = totalSeconds s + (?e + 850) div 1000"
      unfolding el by (simp add: f)
    show ?thesis unfolding e using l3(1) d tot True six(2) by simp
  next
    case False
    have short: "clock ?g - sessionStartTime ?g < 10000"
      unfolding el by (rule goal_wrapped [OF False])
    show ?thesis unfolding endSession_short [OF short] using False by simp
  qed
  have quiet: "updateLED (?g\<lparr>clock := now\<rparr>) = Inr (breatheLED (?g\<lparr>clock := now\<rparr>))" for now
    using actg by (simp add: updateLED_active goalDue_def)
  have tr: "trace ?g = trace s @ [LedShow Breath, Serial ''Goal reached!'', MotorHigh, MotorLow,
                                  MotorHigh, MotorLow, MotorHigh, MotorLow]"
    by (simp add: breatheLED_def)
  have nt: "notifications ?g = notifications s"
    unfolding notifications_def tr by simp
  show ?thesis
  proof (intro conjI impI)
    show "goalDuration (startSession s0) = 60000" by (rule g0)
  next
    assume en: "enforceGoal (todaysPlan s)"
    show "updateLED s = squeezeAction ?g"
      using en by (simp add: u squeezeAction_active [OF actg])
    show "\<exists>s'. updateLED s = Inr s' \<and> currentState s' = SETTLING \<and>
             statusChar s' = [state_code SETTLING] \<and>
             (if ?e \<le> ?e + 850
              then session_log s' \<noteq> [] \<and>
                   durationSeconds (last (session_log s')) = (?e + 850) div 1000 \<and>
                   totalSeconds s' = totalSeconds s + (?e + 850) div 1000 \<and>
                   (durationSeconds (last (session_log s')) = 60) = (?e < 60150)
              else session_log s' = session_log s \<and> totalSeconds s' = totalSeconds s)"
      using en enforced by (simp only: u if_True)
  next
    assume ne: "\<not> enforceGoal (todaysPlan s)"
    show "\<exists>s'. updateLED s = Inr s' \<and> currentState s' = ACTIVE \<and> goalReached s' \<and>
             trace s' = trace s @ [LedShow Breath, Serial ''Goal reached!'', MotorHigh, MotorLow,
                                   MotorHigh, MotorLow, MotorHigh, MotorLow] \<and>
             notifications s' = notifications s \<and> statusChar s' = statusChar s \<and>
             session_log s' = session_log s \<and> totalSeconds s' = totalSeconds s \<and>
             (\<forall>now. updateLED (s'\<lparr>clock := now\<rparr>) = Inr (breatheLED (s'\<lparr>clock := now\<rparr>)))"
      using ne actg tr nt quiet by (intro exI [of _ ?g]) (simp add: u)
  qed
qed

theorem goal_enforcement_witness:
  "(\<exists>s'. updateLED (mid_session plan_1min_enforced 61005) = Inr s' \<and> currentState s' = SETTLING \<and>
         durationSeconds (last (session_log s')) = 60 \<and> totalSeconds s' = 60) \<and>
   (\<exists>s'. updateLED (mid_session plan_1min_enforced 61150) = Inr s' \<and> currentState s' = SETTLING \<and>
         durationSeconds (last (session_log s')) = 61 \<and> totalSeconds s' = 61) \<and>
   (\<exists>s'. updateLED (mid_session plan_1min 61005) = Inr s' \<and> currentState s' = ACTIVE \<and>
         goalReached s' \<and> session_log s' = [] \<and>
         notifications s' = notifications (mid_session plan_1min 61005))"
proof -
  let ?p1 = "plans_stored (Some plan_1min_enforced) boot" and ?s1 = "mid_session plan_1min_enforced 61005"
  let ?p2 = "plans_stored (Some plan_1min) boot" and ?s2 = "mid_session plan_1min 61005"
  let ?s3 = "mid_session plan_1min_enforced 61150"
  have a1: "active (todaysPlan ?p1)" "durationMinutes (todaysPlan ?p1) = 1"
    and a2: "active (todaysPlan ?p2)" "durationMinutes (todaysPlan ?p2) = 1"
    by (simp_all add: todaysPlan_upload)
  have w: "60000 \<le> millis (mid_session p 61005) - sessionStartTime (mid_session p 61005)"
    "60000 \<le> millis (mid_session p 61150) - sessionStartTime (mid_session p 61150)" for p
    by (simp_all add: millis_def mid_session_fields)
  have n: "\<not> goalReached (mid_session p now)" for p now
    by (simp add: mid_session_fields)
  have e1: "enforceGoal (todaysPlan (mid_session plan_1min_enforced now))"
    and e2: "\<not> enforceGoal (todaysPlan ?s2)" for now
    by (simp_all add: mid_session_fields todaysPlan_upload)
  have t0: "totalSeconds (mid_session p now) = 0" "session_log (mid_session p now) = []" for p now
    by (simp_all add: mid_session_def boot_fields)
  from goal_enforcement [OF a1 mid_session_fields(1,2) n mid_session_fields(7) w(1)] e1
  obtain s1 where "updateLED ?s1 = Inr s1" "currentState s1 = SETTLING"
    "if millis ?s1 - sessionStartTime ?s1 \<le> millis ?s1 - sessionStartTime ?s1 + 850
     then session_log s1 \<noteq> [] \<and>
          durationSeconds (last (session_log s1)) = (millis ?s1 - sessionStartTime ?s1 + 850) div 1000 \<and>
          totalSeconds s1 = totalSeconds ?s1 + (millis ?s1 - sessionStartTime ?s1 + 850) div 1000 \<and>
          (durationSeconds (last (session_log s1)) = 60) = (millis ?s1 - sessionStartTime ?s1 < 60150)
     else session_log s1 = session_log ?s1 \<and> totalSeconds s1 = totalSeconds ?s1"
    by blast
  then have c1: "\<exists>s'. updateLED ?s1 = Inr s' \<and> currentState s' = SETTLING \<and>
         durationSeconds (last (session_log s')) = 60 \<and> totalSeconds s' = 60"
    by (simp add: t0 millis_def mid_session_fields)
  from goal_enforcement [OF a1 mid_session_fields(1,2) n mid_session_fields(7) w(2)] e1
  obtain s3 where "updateLED ?s3 = Inr s3" "currentState s3 = SETTLING"
    "if millis ?s3 - sessionStartTime ?s3 \<le> millis ?s3 - sessionStartTime ?s3 + 850
     then session_log s3 \<noteq> [] \<and>
          durationSeconds (last (session_log s3)) = (millis ?s3 - sessionStartTime ?s3 + 850) div 1000 \<and>
          totalSeconds s3 = totalSeconds ?s3 + (millis ?s3 - sessionStartTime ?s3 + 850) div 1000 \<and>
          (durationSeconds (last (session_log s3)) = 60) = (millis ?s3 - sessionStartTime ?s3 < 60150)
     else session_log s3 = session_log ?s3 \<and> totalSeconds s3 = totalSeconds ?s3"
    by blast
  then have c3: "\<exists>s'. updateLED ?s3 = Inr s' \<and> currentState s' = SETTLING \<and>
         durationSeconds (last (session_log s')) = 61 \<and> totalSeconds s' = 61"
    by (simp add: t0 millis_def mid_session_fields)
  from goal_enforcement [OF a2 mid_session_fields(1,2) n mid_session_fields(7) w(1)] e2
  obtain s2 where "updateLED ?s2 = Inr s2" "currentState s2 = ACTIVE" "goalReached s2"
    "session_log s2 = session_log ?s2" "notifications s2 = notifications ?s2"
    by blast
  then have c2: "\<exists>s'. updateLED ?s2 = Inr s' \<and> currentState s' = ACTIVE \<and>
         goalReached s' \<and> session_log s' = [] \<and> notifications s' = notifications ?s2"
    by (simp add: t0)
  from c1 c3 c2 show ?thesis by (intro conjI)
qed

text \<open>
  C4 as stated fails in two ways. The three completion pulses take 850 ms before the end
  of the session is read, so an iteration that sees the goal 150 ms or more after the
  60 s mark (here at 62350, the session having started at 2200 and the iteration before
  having come at 62190) records 61 seconds. And with a client connected and
  \<^verbatim>\<open>enforceGoal\<close> clear, reaching the goal sends no notification: the only one sent is
  that of the start of the session, and the Status characteristic still reads
  \<^verbatim>\<open>ACTIVE\<close>.
\<close>

theorem goal_counterexample:
  "observe log_times
     (run [PlansWrite ''[...]'' (Some plan_1min_enforced), Tick True True 2000, Tick True True 2200,
           Tick False False 2500, Tick False False 62190] boot) = Inr [] \<and>
   observe log_times
     (run [PlansWrite ''[...]'' (Some plan_1min_enforced), Tick True True 2000, Tick True True 2200,
           Tick False False 2500, Tick False False 62190, Tick False False 62350] boot)
     = Inr [(2, 63, 61)] \<and>
   observe status_view
     (run [Connect, PlansWrite ''[...]'' (Some plan_1min), Tick True True 2000, Tick True True 2200,
           Tick False False 2500, Tick False False 62190] boot)
     = Inr (ACTIVE, [2], [[2]]) \<and>
   observe (\<lambda>s. (status_view s, goalReached s))
     (run [Connect, PlansWrite ''[...]'' (Some plan_1min), Tick True True 2000, Tick True True 2200,
           Tick False False 2500, Tick False False 62190, Tick False False 62200] boot)
     = Inr ((ACTIVE, [2], [[2]]), True)"
  by (simp add: eval_defs replicate_50_Cons plan_1min_enforced_def)

section \<open>C5: a plan uploaded during a session\<close>

text \<open>
  C5, as amended. A plan upload during an active session replaces the current plan by
  what the payload holds, and changes neither the goal duration of the session nor, at
  any later time, whether the goal is due: both were fixed by \<^verbatim>\<open>startSession\<close>.
  Whether reaching the goal ends the session is decided by the \<^verbatim>\<open>enforceGoal\<close> flag
  of the plan that is current when the goal is reached: after an upload whose first
  element carries the flag, by that flag, whatever the flag of the plan under which the
  session started.
\<close>

theorem plan_upload_mid_session:
  assumes "array_ok s" and "currentState s = ACTIVE"
  shows "\<exists>p. storePlans doc s = Inr p \<and>
           todaysPlan p =
             (case doc of
                None \<Rightarrow> todaysPlan s
              | Some d \<Rightarrow> (case as_array d of
                             [] \<Rightarrow> (todaysPlan s)\<lparr>active := False\<rparr>
                           | x # xs \<Rightarrow> uploaded_plan x)) \<and>
           goalDuration p = goalDuration s \<and>
           (\<forall>now. goalDue (p\<lparr>clock := now\<rparr>) = goalDue (s\<lparr>clock := now\<rparr>) \<and>
              (\<not> goalDue (s\<lparr>clock := now\<rparr>) \<longrightarrow>
                 updateLED (p\<lparr>clock := now\<rparr>) = Inr (breatheLED (p\<lparr>clock := now\<rparr>))) \<and>
              (goalDue (s\<lparr>clock := now\<rparr>) \<longrightarrow>
                 (\<exists>t. updateLED (p\<lparr>clock := now\<rparr>) = Inr t \<and> goalReached t \<and>
                      currentState t = (if enforceGoal (todaysPlan p) then SETTLING else ACTIVE)))) \<and>
           (\<forall>kvs rest b now.
              doc = Some (JArr (JObj kvs # rest)) \<and> map_of kvs ''enforceGoal'' = Some (JBool b) \<and>
              goalDue (s\<lparr>clock := now\<rparr>) \<longrightarrow>
              (\<exists>t. updateLED (p\<lparr>clock := now\<rparr>) = Inr t \<and>
                   currentState t = (if b then SETTLING else ACTIVE)))"
proof -
  let ?p = "plans_stored doc s"
  note m = plans_stored_mid_session [OF assms, where doc = doc]
  have st: "storePlans doc s = Inr ?p" by (rule storePlans_ok [OF assms(1)])
  have tp: "todaysPlan ?p =
             (case doc of
                None \<Rightarrow> todaysPlan s
              | Some d \<Rightarrow> (case as_array d of
                             [] \<Rightarrow> (todaysPlan s)\<lparr>active := False\<rparr>
                           | x # xs \<Rightarrow> uploaded_plan x))"
    by (simp add: todaysPlan_plans_stored split: option.split list.split)
  have flag: "\<exists>t. updateLED (?p\<lparr>clock := now\<rparr>) = Inr t \<and>
                  currentState t = (if b then SETTLING else ACTIVE)"
    if "doc = Some (JArr (JObj kvs # rest)) \<and> map_of kvs ''enforceGoal'' = Some (JBool b) \<and>
        goalDue (s\<lparr>clock := now\<rparr>)"
    for kvs rest b now
  proof -
    from that have d: "doc = Some (JArr (JObj kvs # rest))"
      and f: "map_of kvs ''enforceGoal'' = Some (JBool b)" and due: "goalDue (s\<lparr>clock := now\<rparr>)"
      by simp_all
    have "todaysPlan ?p = uploaded_plan (JObj kvs)"
      unfolding d by (rule todaysPlan_plans_stored(3)) (simp add: as_array_def)
    then have "enforceGoal (todaysPlan ?p) = b"
      using f by (simp add: uploaded_plan_def as_object_def member_def bool_or_def)
    then show ?thesis using m [where now = now] due by auto
  qed
  have g: "goalDuration ?p = goalDuration s" by simp
  show ?thesis
    using st tp g m flag by (intro exI [of _ ?p] conjI allI) blast+
qed

theorem plan_upload_mid_session_witness:
  "(\<exists>p. storePlans (Some plan_30min_enforced) (mid_session plan_1min 30000) = Inr p \<and>
        todaysPlan p = \<lparr>date = 20261030, durationMinutes = 30, enforceGoal = True, active = True\<rparr> \<and>
        goalDuration p = 60000 \<and>
        updateLED (p\<lparr>clock := 40000\<rparr>) = Inr (breatheLED (p\<lparr>clock := 40000\<rparr>)) \<and>
        (\<exists>t. updateLED (p\<lparr>clock := 70000\<rparr>) = Inr t \<and> currentState t = SETTLING))"
proof -
  let ?s = "mid_session plan_1min 30000"
  have g: "goalDuration (mid_session plan_1min now) = 60000" for now
    by (simp add: mid_session_fields startSession_goal todaysPlan_upload)
  have cl: "?s\<lparr>clock := now\<rparr> = mid_session plan_1min now" for now
    by (simp add: mid_session_def)
  have due: "goalDue (?s\<lparr>clock := 70000\<rparr>)"
    unfolding cl by (simp add: goalDue_def mid_session_fields(2,3,4,5) g millis_def)
  have notdue: "\<not> goalDue (?s\<lparr>clock := 40000\<rparr>)"
    unfolding cl by (simp add: goalDue_def mid_session_fields(2,3,4,5) g millis_def)
  have doc: "Some plan_30min_enforced =
             Some (JArr (JObj [(''date'', JInt 20261030), (''duration'', JInt 30),
                               (''enforceGoal'', JBool True)] # []))"
    "map_of [(''date'', JInt 20261030), (''duration'', JInt 30), (''enforceGoal'', JBool True)]
       ''enforceGoal'' = Some (JBool True)"
    by (simp_all add: plan_30min_enforced_def)
  have up: "(case as_array plan_30min_enforced of [] \<Rightarrow> q | x # xs \<Rightarrow> uploaded_plan x)
            = \<lparr>date = 20261030, durationMinutes = 30, enforceGoal = True, active = True\<rparr>" for q
    by (simp add: plan_30min_enforced_def as_array_def uploaded_plan_def as_object_def member_def
        int_or_def bool_or_def)
  from plan_upload_mid_session [OF mid_session_fields(1) [of plan_1min 30000]
      mid_session_fields(2) [of plan_1min 30000], where doc = "Some plan_30min_enforced"]
  obtain p where p: "storePlans (Some plan_30min_enforced) ?s = Inr p"
    "todaysPlan p = (case Some plan_30min_enforced of
                None \<Rightarrow> todaysPlan ?s
              | Some d \<Rightarrow> (case as_array d of
                             [] \<Rightarrow> (todaysPlan ?s)\<lparr>active := False\<rparr>
                           | x # xs \<Rightarrow> uploaded_plan x))"
    "goalDuration p = goalDuration ?s"
    "\<forall>now. goalDue (p\<lparr>clock := now\<rparr>) = goalDue (?s\<lparr>clock := now\<rparr>) \<and>
              (\<not> goalDue (?s\<lparr>clock := now\<rparr>) \<longrightarrow>
                 updateLED (p\<lparr>clock := now\<rparr>) = Inr (breatheLED (p\<lparr>clock := now\<rparr>))) \<and>
              (goalDue (?s\<lparr>clock := now\<rparr>) \<longrightarrow>
                 (\<exists>t. updateLED (p\<lparr>clock := now\<rparr>) = Inr t \<and> goalReached t \<and>
                      currentState t = (if enforceGoal (todaysPlan p) then SETTLING else ACTIVE)))"
    "\<forall>kvs rest b now. Some plan_30min_enforced = Some (JArr (JObj kvs # rest)) \<and>
                   map_of kvs ''enforceGoal'' = Some (JBool b) \<and> goalDue (?s\<lparr>clock := now\<rparr>) \<longrightarrow>
              (\<exists>t. updateLED (p\<lparr>clock := now\<rparr>) = Inr t \<and>
                   currentState t = (if b then SETTLING else ACTIVE))"
    by blast
  from p(5) doc due
  have a: "\<exists>t. updateLED (p\<lparr>clock := 70000\<rparr>) = Inr t \<and> currentState t = (if True then SETTLING else ACTIVE)"
    by blast
  from p(4) notdue
  have b: "updateLED (p\<lparr>clock := 40000\<rparr>) = Inr (breatheLED (p\<lparr>clock := 40000\<rparr>))"
    by blast
  show ?thesis
    using p(1,2,3) g a b by (intro exI [of _ p]) (simp add: up)
qed

text \<open>
  C5 as stated fails: a session started under a one-minute plan that is not enforced
  stays active at its goal, and the same session ends at its goal when an enforced plan
  is uploaded in between.
\<close>

theorem plan_snapshot_counterexample:
  "observe currentState
     (run [PlansWrite ''[...]'' (Some plan_1min), Tick True True 2000, Tick True True 2200,
           Tick False False 2500, Tick False False 62200] boot)
     = Inr ACTIVE \<and>
   observe currentState
     (run [PlansWrite ''[...]'' (Some plan_1min), Tick True True 2000, Tick True True 2200,
           Tick False False 2500, PlansWrite ''[...]'' (Some plan_30min_enforced),
           Tick False False 62200] boot)
     = Inr SETTLING"
  by (simp add: eval_defs)

section \<open>C6: the second settling episode\<close>

text \<open>
  C6 does not hold of the firmware. The automatic return to \<^verbatim>\<open>IDLE\<close> resets the
  static \<^verbatim>\<open>settlingStart\<close> to 0; the return by a squeeze in \<^verbatim>\<open>handleTouch\<close> does
  not. Here a first session ends at 5200 ms and its settling episode, begun at 6050, is
  acknowledged by a squeeze at 8200. A second session runs from 60200 to 70200. Its
  settling episode is measured from the stale 6050: the very iteration that ends the
  session finds 30 s elapsed and returns to \<^verbatim>\<open>IDLE\<close>, 860 ms after the squeeze and
  not 30 s after it.
\<close>

theorem second_settling_ends_at_once:
  "observe settling_view
     (run [Tick True True 2000, Tick True True 2200, Tick False False 2500,
           Tick True True 5000, Tick True True 5200, Tick False False 6100,
           Tick True True 8000, Tick True True 8200, Tick False False 8300,
           Tick True True 60000, Tick True True 60200, Tick False False 60500,
           Tick True True 70000] boot)
     = Inr (ACTIVE, 6050, 70010) \<and>
   observe settling_view
     (run [Tick True True 2000, Tick True True 2200, Tick False False 2500,
           Tick True True 5000, Tick True True 5200, Tick False False 6100,
           Tick True True 8000, Tick True True 8200, Tick False False 8300,
           Tick True True 60000, Tick True True 60200, Tick False False 60500,
           Tick True True 70000, Tick True True 70200] boot)
     = Inr (IDLE, 0, 71060)"
  by (simp add: eval_defs)

section \<open>C7: the acknowledged return to idle is not published\<close>

text \<open>
  C7 does not hold of the firmware. \<^verbatim>\<open>startSession\<close>, \<^verbatim>\<open>endSession\<close> and the
  automatic return to \<^verbatim>\<open>IDLE\<close> in \<^verbatim>\<open>updateLED\<close> set the Status characteristic and
  notify a connected client; the \<^verbatim>\<open>SETTLING\<close> case of \<^verbatim>\<open>handleTouch\<close> only sets the
  phase and switches the LED off. Here a client is connected, a session is started and
  stopped, and the settling phase is acknowledged by a squeeze at 8200 ms: the phase goes
  from \<^verbatim>\<open>SETTLING\<close> to \<^verbatim>\<open>IDLE\<close>, the characteristic still reads 3 and no third
  notification is sent.
\<close>

theorem early_ack_sends_no_status:
  "observe status_view
     (run [Connect, Tick True True 2000, Tick True True 2200, Tick False False 2500,
           Tick True True 5000, Tick True True 5200, Tick False False 6100,
           Tick True True 8000] boot)
     = Inr (SETTLING, [3], [[2], [3]]) \<and>
   observe status_view
     (run [Connect, Tick True True 2000, Tick True True 2200, Tick False False 2500,
           Tick True True 5000, Tick True True 5200, Tick False False 6100,
           Tick True True 8000, Tick True True 8200] boot)
     = Inr (IDLE, [3], [[2], [3]])"
  by (simp add: eval_defs)

section \<open>C8: malformed writes\<close>




section \<open>C9: acknowledging sessions\<close>




section \<open>C10: the count and every index stay in bounds\<close>

text \<open>
  C10. \<^verbatim>\<open>loadFromFlash\<close> leaves \<^verbatim>\<open>pendingSessionCount\<close> between 0 and 50, and a
  persisted count that is negative or above 50 gives 0 and leaves the array untouched.
  From the booted device, over any flash content, no sequence of loop iterations and
  BLE callbacks makes an access to \<^verbatim>\<open>pendingSessions\<close> outside its 50 elements, and
  the count stays between 0 and 50 throughout.
\<close>

theorem count_stays_in_bounds:
  "0 \<le> pendingSessionCount (loadFromFlash s) \<and> pendingSessionCount (loadFromFlash s) \<le> 50 \<and>
   (flash_pendingCnt s < 0 \<or> flash_pendingCnt s > 50 \<longrightarrow>
      pendingSessionCount (loadFromFlash s) = 0 \<and>
      pendingSessions (loadFromFlash s) = pendingSessions s) \<and>
   run xs (setup_device (power_on ft fc fs rnd)) \<noteq> Inl OutOfBounds \<and>
   (\<forall>s'. run xs (setup_device (power_on ft fc fs rnd)) = Inr s' \<longrightarrow>
      0 \<le> pendingSessionCount s' \<and> pendingSessionCount s' \<le> 50 \<and>
      length (pendingSessions s') = 50)"
proof -
  have a: "0 \<le> pendingSessionCount (loadFromFlash s) \<and> pendingSessionCount (loadFromFlash s) \<le> 50"
    by (auto simp add: loadFromFlash_def Let_def MAX_PENDING_SESSIONS_def)
  have b: "in_bounds (run xs (setup_device (power_on ft fc fs rnd)))"
    by (rule run_in_bounds [OF array_ok_setup_device])
  have c: "run xs (setup_device (power_on ft fc fs rnd)) \<noteq> Inl OutOfBounds"
    using b by (auto simp add: in_bounds_def)
  have d: "0 \<le> pendingSessionCount s' \<and> pendingSessionCount s' \<le> 50 \<and> length (pendingSessions s') = 50"
    if "run xs (setup_device (power_on ft fc fs rnd)) = Inr s'" for s'
    using b that by (simp add: array_ok_iff)
  show ?thesis using a c d loadFromFlash_invalid [of s] by blast
qed

theorem count_stays_in_bounds_witness:
  "pendingSessionCount (loadFromFlash (power_on 0 77 [] [])) = 0 \<and>
   pendingSessions (loadFromFlash (power_on 0 77 [] [])) = pendingSessions (power_on 0 77 [] []) \<and>
   run [Connect, Tick True True 2000, TotalWrite [1, 0, 0, 0]] (setup_device (power_on 0 77 [] []))
     \<noteq> Inl OutOfBounds \<and>
   pendingSessionCount (onDisconnect (onConnect (setup_device (power_on 0 77 [] [])))) \<le> 50"
proof -
  have f: "flash_pendingCnt (power_on 0 77 [] []) > 50" by (simp add: power_on_def)
  have r: "run [Connect, Disconnect] (setup_device (power_on 0 77 [] []))
             = Inr (onDisconnect (onConnect (setup_device (power_on 0 77 [] []))))"
    by simp
  from count_stays_in_bounds [of "power_on 0 77 [] []" "[Connect, Tick True True 2000, TotalWrite [1, 0, 0, 0]]" 0 77 "[]" "[]"]
    count_stays_in_bounds [of "power_on 0 77 [] []" "[Connect, Disconnect]" 0 77 "[]" "[]"]
    f r
  show ?thesis by auto
qed

end
